theory Spec2Isabelle
  imports Main "HOL-Library.AList"
begin

section \<open>Data model of the popup service\<close>

text \<open>
  The model follows \<^verbatim>\<open>PopupService\<close> (services/popup.service, the third document of
  \<^verbatim>\<open>src/src/popup/index.ts\<close>) and \<^verbatim>\<open>mergeSessions\<close> (the popup's import code).

  A \<^verbatim>\<open>StoredSession\<close> is what the background agent captures. The service never looks
  inside it: it only spreads it into a new session object or copies it over an old one
  with \<^verbatim>\<open>Object.assign\<close>. It is modelled as the list of its own properties, each a
  property name and the serialised value, in insertion order.
\<close>

type_synonym stored_session = "(string \<times> string) list"

text \<open>
  \<^verbatim>\<open>SessionData\<close>: the six properties the service reads and writes by name, and
  \<open>payload\<close>, the remaining (captured) properties of the object. \<open>order\<close> is optional
  in the source (\<^verbatim>\<open>s.order ?? 0\<close>, \<^verbatim>\<open>session.order === undefined\<close>). The field \<open>id_s\<close>
  is the source's \<^verbatim>\<open>id\<close>. Timestamps and orders are JavaScript numbers holding
  integers; they are modelled as integers, and the one sum the service forms is given
  as double addition gives it (\<open>plusOne\<close> below).
\<close>

record session =
  id_s :: string
  name :: string
  domain :: string
  createdAt :: int
  lastUsed :: int
  order :: "int option"
  payload :: stored_session

text \<open>
  \<^verbatim>\<open>PopupState\<close>. \<open>activeSessions\<close> is a JavaScript object used as a dictionary from
  domain to session id: an association list read with \<^const>\<open>map_of\<close>, written with
  \<^const>\<open>AList.update\<close> and \<^const>\<open>AList.delete\<close>. \<^verbatim>\<open>currentTab\<close> is only forwarded
  to the background agent and is left out.
\<close>

record popup_state =
  currentDomain :: string
  sessions :: "session list"
  activeSessions :: "(string \<times> string) list"
  currentRenameSessionId :: string
  currentDeleteSessionId :: string

text \<open>
  The answer of the background agent to a message:
  \<^verbatim>\<open>{ success: boolean, data?: StoredSession | null, error?: string }\<close>.
\<close>

record response =
  success :: bool
  data :: "stored_session option"
  error :: "string option"

text \<open>
  Every failure of the source is \<^verbatim>\<open>throw new ExtensionError(message)\<close>. The model has
  one constructor for each throw site:
  \<^item> \<open>NotFoundError\<close>: \<^verbatim>\<open>"Session not found"\<close>;
  \<^item> \<open>CrossDomainError\<close>: \<^verbatim>\<open>"Cannot overwrite a session from a different domain"\<close>;
  \<^item> \<open>NameConflictError\<close>: \<^verbatim>\<open>"Session name already exists"\<close>;
  \<^item> \<open>CountMismatchError\<close>: \<^verbatim>\<open>"Session count mismatch during reorder operation"\<close>;
  \<^item> \<open>InvalidIdsError\<close>: \<^verbatim>\<open>"Invalid session IDs provided for reorder operation"\<close>;
  \<^item> \<open>CaptureError\<close>, \<open>ApplyError\<close>, \<open>ClearError\<close>: the agent answered
    \<^verbatim>\<open>success: false\<close>; the message is \<^verbatim>\<open>response.error || "Failed to ..."\<close>;
  \<^item> \<open>ValidationError\<close>: whatever \<^verbatim>\<open>validateSessionName\<close> throws.

  Each public method catches its own errors and rethrows them through \<^verbatim>\<open>handleError\<close>
  with the method's name; that function is not among the sources and only rewrites the
  message, so the model keeps the original error.
\<close>

datatype error =
    ValidationError string
  | NotFoundError
  | CrossDomainError
  | NameConflictError
  | CountMismatchError
  | InvalidIdsError
  | CaptureError string
  | ApplyError string
  | ClearError string

section \<open>Strings and numbers\<close>

text \<open>
  The service compares ids, domains and names with \<^verbatim>\<open>===\<close>, which on strings is equality
  of their text, and otherwise touches a string only through the built-in methods
  \<^verbatim>\<open>String.prototype.trim\<close> and \<^verbatim>\<open>String.prototype.toLowerCase\<close>. Both are defined by
  the language over all of Unicode, not by the repository; the operations below take
  them as the arguments \<open>trim\<close> and \<open>toLowerCase\<close>, so that every theorem about an
  operation holds for the built-ins themselves.

  A JavaScript number is an IEEE 754 double. The orders the service stores are integers,
  and the only arithmetic on them is \<^verbatim>\<open>maxOrder + 1\<close>. The model keeps an order as an
  integer and gives \<open>k + 1\<close> as double addition does for a stored number \<open>k\<close>: the
  exact sum while its magnitude is at most \<open>2^53\<close>. Beyond that the sum is odd and no
  double: between \<open>2^53\<close> and \<open>2^54\<close> in magnitude the doubles are the even integers,
  so the sum lies half way between \<open>k\<close> and \<open>k + 2\<close> and the tie goes to the one with
  the even significand (\<open>k\<close> when \<open>k div 2\<close> is even); from \<open>2^54\<close> on the doubles are
  at least 4 apart and the sum rounds back to \<open>k\<close>.
\<close>

definition plusOne :: "int \<Rightarrow> int" where
  "plusOne k =
     (if \<bar>k + 1\<bar> \<le> 2 ^ 53 then k + 1
      else if \<bar>k\<bar> < 2 ^ 54 \<and> odd (k div 2) then k + 2
      else k)"

section \<open>Helpers for objects and arrays\<close>

text \<open>
  \<^verbatim>\<open>const x = xs.find(p); ...; x.field = v\<close> mutates the first element of the array
  that satisfies \<open>p\<close>, in place. \<open>updateFound p f xs\<close> applies \<open>f\<close> to that element.
\<close>

fun updateFound :: "('a \<Rightarrow> bool) \<Rightarrow> ('a \<Rightarrow> 'a) \<Rightarrow> 'a list \<Rightarrow> 'a list" where
  "updateFound p f [] = []"
| "updateFound p f (x # xs) = (if p x then f x # xs else x # updateFound p f xs)"

text \<open>
  \<^verbatim>\<open>Object.assign(target, source)\<close>: every own property of the source is written to the
  target, replacing the value of a property the target has and adding the others.
\<close>

definition objectAssign :: "stored_session \<Rightarrow> stored_session \<Rightarrow> stored_session" where
  "objectAssign target source = fold (\<lambda>(k, v). AList.update k v) source target"

text \<open>
  Both \<^verbatim>\<open>{...storedSession, id: ..., name: ..., ...}\<close> and
  \<^verbatim>\<open>Object.assign(session, storedSession, preserved, {name, lastUsed})\<close> write the six
  named properties after the captured ones, so a captured property with one of these
  names never reaches the session.
\<close>

definition namedProperties :: "string list" where
  "namedProperties = [''id'', ''name'', ''domain'', ''createdAt'', ''lastUsed'', ''order'']"

definition capturedProperties :: "stored_session \<Rightarrow> stored_session" where
  "capturedProperties storedSession = filter (\<lambda>(k, v). k \<notin> set namedProperties) storedSession"

text \<open>\<^verbatim>\<open>response.error || fallback\<close>: a missing or empty message gives the fallback.\<close>

definition errorOr :: "response \<Rightarrow> string \<Rightarrow> string" where
  "errorOr resp fallback =
     (case error resp of None \<Rightarrow> fallback | Some m \<Rightarrow> if m = [] then fallback else m)"

text \<open>\<^verbatim>\<open>s.order ?? 0\<close>\<close>

definition orderOrZero :: "session \<Rightarrow> int" where
  "orderOrZero s = (case order s of None \<Rightarrow> 0 | Some k \<Rightarrow> k)"

section \<open>The operations of PopupService\<close>

text \<open>
  Every operation takes the state and returns its result (\<open>Inl\<close> the error thrown,
  \<open>Inr\<close> the value returned) together with the state it leaves in memory. What the
  source obtains from outside is an argument: the validator
  \<^verbatim>\<open>validateSessionName\<close> and the constant \<^verbatim>\<open>storedSessionDefaultValue\<close> (both imported
  from modules that are not among the sources), the agent's response, the result of
  \<^verbatim>\<open>generateId()\<close> and the readings of \<^verbatim>\<open>Date.now()\<close>, and the two string
  built-ins. The write to
  \<^verbatim>\<open>chrome.storage\<close> that ends every operation copies \<open>sessions\<close> and
  \<open>activeSessions\<close> and is taken to succeed.
\<close>

definition getSession :: "popup_state \<Rightarrow> string \<Rightarrow> session option" where
  "getSession st sessionId = find (\<lambda>s. id_s s = sessionId) (sessions st)"

definition saveCurrentSession ::
  "(string \<Rightarrow> error + string) \<Rightarrow> stored_session \<Rightarrow> string \<Rightarrow> response \<Rightarrow> string \<Rightarrow> int \<Rightarrow> int \<Rightarrow>
     popup_state \<Rightarrow> (error + session) \<times> popup_state" where
  "saveCurrentSession validateSessionName storedSessionDefaultValue nm resp generatedId now1 now2 st =
     (case validateSessionName nm of
        Inl e \<Rightarrow> (Inl e, st)
      | Inr validatedName \<Rightarrow>
          if \<not> success resp then (Inl (CaptureError (errorOr resp ''Failed to get current session'')), st)
          else
            let storedSession = (case data resp of None \<Rightarrow> storedSessionDefaultValue | Some d \<Rightarrow> d);
                domainSessions = filter (\<lambda>s. domain s = currentDomain st) (sessions st);
                maxOrder = (case map orderOrZero domainSessions of [] \<Rightarrow> - 1 | k # ks \<Rightarrow> fold max ks k);
                newSession = \<lparr> id_s = generatedId, name = validatedName, domain = currentDomain st,
                               createdAt = now1, lastUsed = now2, order = Some (plusOne maxOrder),
                               payload = capturedProperties storedSession \<rparr>
            in (Inr newSession,
                st\<lparr> sessions := sessions st @ [newSession],
                    activeSessions := AList.update (currentDomain st) (id_s newSession) (activeSessions st) \<rparr>))"

definition overwriteSessionWithCurrent ::
  "(string \<Rightarrow> error + string) \<Rightarrow> stored_session \<Rightarrow> string \<Rightarrow> string option \<Rightarrow> response \<Rightarrow> int \<Rightarrow>
     popup_state \<Rightarrow> (error + unit) \<times> popup_state" where
  "overwriteSessionWithCurrent validateSessionName storedSessionDefaultValue sessionId nm resp now st =
     (case find (\<lambda>s. id_s s = sessionId) (sessions st) of
        None \<Rightarrow> (Inl NotFoundError, st)
      | Some found \<Rightarrow>
          if domain found \<noteq> currentDomain st then (Inl CrossDomainError, st)
          else
            (case (case nm of None \<Rightarrow> Inr (name found) | Some n \<Rightarrow> validateSessionName n) of
               Inl e \<Rightarrow> (Inl e, st)
             | Inr validatedName \<Rightarrow>
                 if \<not> success resp then (Inl (CaptureError (errorOr resp ''Failed to get current session'')), st)
                 else
                   let storedSession = (case data resp of None \<Rightarrow> storedSessionDefaultValue | Some d \<Rightarrow> d)
                   in (Inr (),
                       st\<lparr> sessions :=
                             updateFound (\<lambda>s. id_s s = sessionId)
                               (\<lambda>s. s\<lparr> payload := objectAssign (payload s) (capturedProperties storedSession),
                                       id_s := id_s found, order := order found,
                                       createdAt := createdAt found, domain := domain found,
                                       name := validatedName, lastUsed := now \<rparr>)
                               (sessions st),
                           activeSessions := AList.update (currentDomain st) (id_s found) (activeSessions st) \<rparr>)))"

definition switchToSession ::
  "string \<Rightarrow> response \<Rightarrow> int \<Rightarrow> popup_state \<Rightarrow> (error + unit) \<times> popup_state" where
  "switchToSession sessionId resp now st =
     (case find (\<lambda>s. id_s s = sessionId) (sessions st) of
        None \<Rightarrow> (Inl NotFoundError, st)
      | Some found \<Rightarrow>
          if \<not> success resp then (Inl (ApplyError (errorOr resp ''Failed to switch session'')), st)
          else (Inr (),
                st\<lparr> activeSessions := AList.update (currentDomain st) sessionId (activeSessions st),
                    sessions := updateFound (\<lambda>s. id_s s = sessionId) (\<lambda>s. s\<lparr> lastUsed := now \<rparr>) (sessions st) \<rparr>))"

definition createNewSession :: "response \<Rightarrow> popup_state \<Rightarrow> (error + unit) \<times> popup_state" where
  "createNewSession resp st =
     (if \<not> success resp then (Inl (ClearError (errorOr resp ''Failed to clear session'')), st)
      else (Inr (), st\<lparr> activeSessions := AList.delete (currentDomain st) (activeSessions st) \<rparr>))"

text \<open>
  \<^verbatim>\<open>findSessionByName(domain, name, excludeId)\<close>. \<^verbatim>\<open>s.name ?? ""\<close> is \<^verbatim>\<open>s.name\<close> for
  a string.
\<close>

definition findSessionByName ::
  "(string \<Rightarrow> string) \<Rightarrow> (string \<Rightarrow> string) \<Rightarrow> popup_state \<Rightarrow> string \<Rightarrow> string \<Rightarrow> string option \<Rightarrow>
     session option" where
  "findSessionByName trim toLowerCase st dmn nm excludeId =
     (let target = toLowerCase (trim nm)
      in find (\<lambda>s. domain s = dmn \<and> Some (id_s s) \<noteq> excludeId \<and> toLowerCase (trim (name s)) = target)
           (sessions st))"

definition renameSession ::
  "(string \<Rightarrow> error + string) \<Rightarrow> (string \<Rightarrow> string) \<Rightarrow> (string \<Rightarrow> string) \<Rightarrow> string \<Rightarrow> string \<Rightarrow> bool \<Rightarrow>
     popup_state \<Rightarrow> (error + unit) \<times> popup_state" where
  "renameSession validateSessionName trim toLowerCase sessionId newName overwrite st =
     (case find (\<lambda>s. id_s s = sessionId) (sessions st) of
        None \<Rightarrow> (Inl NotFoundError, st)
      | Some found \<Rightarrow>
          (case validateSessionName newName of
             Inl e \<Rightarrow> (Inl e, st)
           | Inr validatedName \<Rightarrow>
               let dmn = domain found;
                   applyName = (\<lambda>st'. (Inr (),
                     st'\<lparr> sessions :=
                            updateFound (\<lambda>s. id_s s = sessionId) (\<lambda>s. s\<lparr> name := validatedName \<rparr>) (sessions st') \<rparr>))
               in (case findSessionByName trim toLowerCase st dmn validatedName (Some sessionId) of
                     None \<Rightarrow> applyName st
                   | Some conflict \<Rightarrow>
                       if \<not> overwrite then (Inl NameConflictError, st)
                       else
                         let st1 = st\<lparr> sessions := filter (\<lambda>s. id_s s \<noteq> id_s conflict) (sessions st) \<rparr>;
                             st2 = (if map_of (activeSessions st1) dmn = Some (id_s conflict)
                                    then st1\<lparr> activeSessions := AList.update dmn sessionId (activeSessions st1) \<rparr>
                                    else st1)
                         in applyName st2)))"

definition deleteSession :: "string \<Rightarrow> popup_state \<Rightarrow> (error + unit) \<times> popup_state" where
  "deleteSession sessionId st =
     (let st1 = st\<lparr> sessions := filter (\<lambda>s. id_s s \<noteq> sessionId) (sessions st) \<rparr>;
          st2 = (if map_of (activeSessions st1) (currentDomain st1) = Some sessionId
                 then st1\<lparr> activeSessions := AList.delete (currentDomain st1) (activeSessions st1) \<rparr>
                 else st1)
      in (Inr (), st2))"

text \<open>
  \<^verbatim>\<open>sessionIds.forEach((id, index) => { const session = domainSessions.find(...);
  if (session) session.order = index; })\<close>: \<^verbatim>\<open>domainSessions\<close> holds the session objects
  of the current domain themselves, so the assignment changes the stored session.
\<close>

definition assignOrder :: "string \<Rightarrow> nat \<times> string \<Rightarrow> session list \<Rightarrow> session list" where
  "assignOrder dmn = (\<lambda>(index, sessionId).
     updateFound (\<lambda>s. domain s = dmn \<and> id_s s = sessionId) (\<lambda>s. s\<lparr> order := Some (int index) \<rparr>))"

definition reorderSessions :: "string list \<Rightarrow> popup_state \<Rightarrow> (error + unit) \<times> popup_state" where
  "reorderSessions sessionIds st =
     (let domainSessions = filter (\<lambda>s. domain s = currentDomain st) (sessions st)
      in if length sessionIds \<noteq> length domainSessions then (Inl CountMismatchError, st)
         else if \<not> list_all (\<lambda>s. id_s s \<in> set sessionIds) domainSessions then (Inl InvalidIdsError, st)
         else (Inr (),
               st\<lparr> sessions := fold (assignOrder (currentDomain st)) (enumerate 0 sessionIds) (sessions st) \<rparr>))"

section \<open>Import\<close>

text \<open>
  \<^verbatim>\<open>mergeSessions(importedSessions)\<close> works on the value stored under the key
  \<^verbatim>\<open>sessions\<close> of \<^verbatim>\<open>chrome.storage.local\<close>: \<open>None\<close> when the key holds no array. It
  returns the value stored afterwards. \<^verbatim>\<open>.filter(Boolean)\<close> drops the falsy domains; for
  a string that is the empty one.
\<close>

definition mergeSessions :: "session list option \<Rightarrow> session list \<Rightarrow> session list option" where
  "mergeSessions stored importedSessions =
     (let existing = (case stored of None \<Rightarrow> [] | Some xs \<Rightarrow> xs)
      in if length importedSessions = 0 then stored
         else
           let importedDomains = set (filter (\<lambda>d. d \<noteq> []) (map domain importedSessions));
               keptSessions = filter (\<lambda>s. domain s \<notin> importedDomains) existing
           in Some (keptSessions @ importedSessions))"

section \<open>The validator\<close>

text \<open>
  Modelled from the spec: \<^verbatim>\<open>validateSessionName\<close> (module
  \<^verbatim>\<open>@shared/utils/validation\<close>) is not among the sources. The spec says of it: "Validates
  name (non-empty after trim, length bound; fails with ValidationError otherwise)". The
  bound is a parameter, and the accepted name is returned trimmed. The operations above
  take the validator as an argument, and the theorems below hold for every validator;
  this one is used where a concrete run is evaluated.
\<close>

definition validateSessionNameSpec :: "(string \<Rightarrow> string) \<Rightarrow> nat \<Rightarrow> string \<Rightarrow> error + string" where
  "validateSessionNameSpec trim maxLength nm =
     (let trimmed = trim nm
      in if trimmed = [] then Inl (ValidationError ''Session name cannot be empty'')
         else if length trimmed > maxLength then Inl (ValidationError ''Session name is too long'')
         else Inr trimmed)"


section \<open>The string built-ins on ASCII text\<close>

text \<open>
  Where a run is evaluated on example names, the names are ASCII text and the two
  built-ins are given by their action on it: \<^verbatim>\<open>trim\<close> strips tab, line feed, vertical
  tab, form feed, carriage return and space from both ends, and \<^verbatim>\<open>toLowerCase\<close> maps
  the letters \<open>A\<close> to \<open>Z\<close> to \<open>a\<close> to \<open>z\<close>. On other text the built-ins do more
  (they also strip U+00A0 and lowercase U+00C9, for instance); no theorem about an
  operation depends on these two definitions.
\<close>

definition isWhiteSpace :: "char \<Rightarrow> bool" where
  "isWhiteSpace c =
     (c = CHR 0x09 \<or> c = CHR 0x0A \<or> c = CHR 0x0B \<or> c = CHR 0x0C \<or> c = CHR 0x0D \<or> c = CHR 0x20)"

definition trimAscii :: "string \<Rightarrow> string" where
  "trimAscii s = rev (dropWhile isWhiteSpace (rev (dropWhile isWhiteSpace s)))"

definition lowerChar :: "char \<Rightarrow> char" where
  "lowerChar c =
     (let n = (of_char c :: nat) in if 65 \<le> n \<and> n \<le> 90 then char_of (n + 32) else c)"

definition toLowerCaseAscii :: "string \<Rightarrow> string" where
  "toLowerCaseAscii s = map lowerChar s"

section \<open>Example states\<close>

text \<open>
  The scenario of the spec: the domain \<open>example.com\<close> has the sessions A (order 0,
  named "work") and B (order 1, named "home"); a third session belongs to another
  domain. \<open>exampleDefault\<close> is an example value for \<^verbatim>\<open>storedSessionDefaultValue\<close>,
  a constant that is not among the sources; the theorems hold for every value of it.
\<close>

definition sessionA :: session where
  "sessionA = \<lparr> id_s = ''a1'', name = ''work'', domain = ''example.com'', createdAt = 100,
                lastUsed = 150, order = Some 0, payload = [(''cookies'', ''[sid=1]'')] \<rparr>"

definition sessionB :: session where
  "sessionB = \<lparr> id_s = ''b2'', name = ''home'', domain = ''example.com'', createdAt = 200,
                lastUsed = 250, order = Some 1, payload = [(''cookies'', ''[sid=2]'')] \<rparr>"

definition sessionC :: session where
  "sessionC = \<lparr> id_s = ''c3'', name = ''work'', domain = ''other.org'', createdAt = 300,
                lastUsed = 350, order = Some 0, payload = [(''cookies'', ''[sid=3]'')] \<rparr>"

definition exampleState :: popup_state where
  "exampleState = \<lparr> currentDomain = ''example.com'', sessions = [sessionA, sessionB, sessionC],
                    activeSessions = [(''example.com'', ''a1''), (''other.org'', ''c3'')],
                    currentRenameSessionId = [], currentDeleteSessionId = [] \<rparr>"

definition captureOk :: response where
  "captureOk = \<lparr> success = True, data = Some [(''cookies'', ''[sid=9]'')], error = None \<rparr>"

definition captureEmpty :: response where
  "captureEmpty = \<lparr> success = True, data = None, error = None \<rparr>"

definition exampleDefault :: stored_session where
  "exampleDefault = [(''cookies'', ''[]''), (''localStorage'', ''{}''), (''sessionStorage'', ''{}'')]"


text \<open>
  The example store after a second session was saved under the name " WORK ": two
  sessions of \<open>example.com\<close> now carry the same name up to case, and the later one is
  the active one.
\<close>

definition sessionD :: session where
  "sessionD = \<lparr> id_s = ''d4'', name = ''WORK'', domain = ''example.com'', createdAt = 1000,
                lastUsed = 1001, order = Some 2, payload = [(''cookies'', ''[sid=9]'')] \<rparr>"

definition duplicateNameState :: popup_state where
  "duplicateNameState = exampleState\<lparr> sessions := [sessionA, sessionB, sessionC, sessionD],
                          activeSessions := [(''example.com'', ''d4''), (''other.org'', ''c3'')] \<rparr>"



definition emptyState :: popup_state where
  "emptyState = \<lparr> currentDomain = ''example.com'', sessions = [], activeSessions = [],
                  currentRenameSessionId = [], currentDeleteSessionId = [] \<rparr>"

text \<open>
  The same store seen from a tab of the other domain, and the agent's answer to a
  request that carries no data.
\<close>

definition otherTabState :: popup_state where
  "otherTabState = exampleState\<lparr> currentDomain := ''other.org'' \<rparr>"

definition applyOk :: response where
  "applyOk = \<lparr> success = True, data = None, error = None \<rparr>"

text \<open>
  Two sessions whose domain is the empty string, as \<^verbatim>\<open>new URL(url).hostname\<close> is for a
  \<^verbatim>\<open>file:\<close> URL and as an imported file may hold.
\<close>

definition blankDomainA :: session where
  "blankDomainA = \<lparr> id_s = ''e5'', name = ''local'', domain = [], createdAt = 400,
                    lastUsed = 450, order = Some 0, payload = [] \<rparr>"

definition blankDomainB :: session where
  "blankDomainB = \<lparr> id_s = ''f6'', name = ''imported'', domain = [], createdAt = 500,
                    lastUsed = 550, order = Some 0, payload = [] \<rparr>"

section \<open>The invariant of the active pointers\<close>

text \<open>
  "ActiveSessions[domain], if present, must reference a session whose domain equals that
  key": every entry of \<open>activeSessions\<close> names a stored session of the entry's domain.
\<close>

definition activePointersValid :: "popup_state \<Rightarrow> bool" where
  "activePointersValid st =
     list_all (\<lambda>(d, i). list_ex (\<lambda>s. id_s s = i \<and> domain s = d) (sessions st)) (activeSessions st)"

section \<open>Facts about the helpers\<close>

lemma length_updateFound [simp]: "length (updateFound p f xs) = length xs"
  by (induction xs) auto

lemma updateFound_none: "find p xs = None \<Longrightarrow> updateFound p f xs = xs"
  by (induction xs) (auto split: if_splits)

lemma map_updateFound_frame:
  "find p xs = Some y \<Longrightarrow> g (f y) = g y \<Longrightarrow> map g (updateFound p f xs) = map g xs"
  by (induction xs) (auto split: if_splits)

lemma find_updateFound:
  "find p xs = Some y \<Longrightarrow> p (f y) \<Longrightarrow> find p (updateFound p f xs) = Some (f y)"
  by (induction xs) (auto split: if_splits)

lemma filter_updateFound:
  "(\<And>x. p x \<Longrightarrow> \<not> q x \<and> \<not> q (f x)) \<Longrightarrow> filter q (updateFound p f xs) = filter q xs"
  by (induction xs) auto

lemma find_filter:
  "(\<And>x. p x \<Longrightarrow> q x) \<Longrightarrow> find p (filter q xs) = find p xs"
  by (induction xs) auto

lemma find_Some_holds: "find p xs = Some y \<Longrightarrow> p y \<and> y \<in> set xs"
  by (induction xs) (auto split: if_splits)

lemma list_all_updateFound:
  "list_all q xs \<Longrightarrow> (\<And>x. q x \<Longrightarrow> q (f x)) \<Longrightarrow> list_all q (updateFound p f xs)"
  by (induction xs) auto

lemma find_exists: "x \<in> set xs \<Longrightarrow> p x \<Longrightarrow> \<exists>y. find p xs = Some y"
  by (cases "find p xs") (auto simp: find_None_iff)


subsection \<open>Assigning orders\<close>

lemma map_updateFound_same:
  "(\<And>x. g (f x) = g x) \<Longrightarrow> map g (updateFound p f xs) = map g xs"
  by (induction xs) auto

lemma nth_updateFound_other:
  "j < length xs \<Longrightarrow> \<not> p (xs ! j) \<Longrightarrow> updateFound p f xs ! j = xs ! j"
proof (induction xs arbitrary: j)
  case Nil
  then show ?case by simp
next
  case (Cons x xs)
  then show ?case by (cases j) auto
qed

lemma updateFound_unique:
  "distinct (map key (filter q xs)) \<Longrightarrow>
   updateFound (\<lambda>s. q s \<and> key s = i) f xs = map (\<lambda>s. if q s \<and> key s = i then f s else s) xs"
proof (induction xs)
  case Nil
  then show ?case by simp
next
  case (Cons x xs)
  show ?case
  proof (cases "q x \<and> key x = i")
    case True
    with Cons.prems have "key x \<notin> key ` set (filter q xs)"
      by simp
    with True have "\<forall>y \<in> set xs. \<not> (q y \<and> key y = i)"
      by (auto simp: image_iff)
    then have "map (\<lambda>s. if q s \<and> key s = i then f s else s) xs = xs"
      by (intro map_idI) auto
    with True show ?thesis by simp
  next
    case False
    moreover from Cons.prems have "distinct (map key (filter q xs))"
      by (simp split: if_splits)
    ultimately show ?thesis
      using Cons.IH by auto
  qed
qed

lemma assignOrder_map:
  "map (\<lambda>s. (id_s s, domain s)) (assignOrder d e ss) = map (\<lambda>s. (id_s s, domain s)) ss"
  by (cases e) (simp add: assignOrder_def map_updateFound_same)

lemma assignOrder_length [simp]: "length (assignOrder d e ss) = length ss"
  by (cases e) (simp add: assignOrder_def)

lemma fold_assignOrder_length [simp]: "length (fold (assignOrder d) es ss) = length ss"
  by (induction es arbitrary: ss) auto

lemma assignOrder_other:
  "j < length ss \<Longrightarrow> \<not> (domain (ss ! j) = d \<and> id_s (ss ! j) = i) \<Longrightarrow>
   assignOrder d (n, i) ss ! j = ss ! j"
  by (simp add: assignOrder_def nth_updateFound_other)

lemma assignOrder_hit:
  assumes "distinct (map id_s (filter (\<lambda>s. domain s = d) ss))" "j < length ss"
    "domain (ss ! j) = d" "id_s (ss ! j) = i"
  shows "assignOrder d (n, i) ss ! j = (ss ! j)\<lparr> order := Some (int n) \<rparr>"
  using assms by (simp add: assignOrder_def updateFound_unique)

lemma assignOrder_distinct:
  "distinct (map id_s (filter (\<lambda>s. domain s = d) ss)) \<Longrightarrow>
   distinct (map id_s (filter (\<lambda>s. domain s = d) (assignOrder d e ss)))"
proof -
  assume a: "distinct (map id_s (filter (\<lambda>s. domain s = d) ss))"
  have "map fst (filter (\<lambda>p. snd p = d) (map (\<lambda>s. (id_s s, domain s)) (assignOrder d e ss))) =
        map fst (filter (\<lambda>p. snd p = d) (map (\<lambda>s. (id_s s, domain s)) ss))"
    by (simp only: assignOrder_map)
  then have "map id_s (filter (\<lambda>s. domain s = d) (assignOrder d e ss)) =
             map id_s (filter (\<lambda>s. domain s = d) ss)"
    by (simp add: filter_map o_def)
  with a show ?thesis by simp
qed

lemma fold_assignOrder_other:
  "j < length ss \<Longrightarrow> \<not> (domain (ss ! j) = d \<and> id_s (ss ! j) \<in> set ids) \<Longrightarrow>
   fold (assignOrder d) (enumerate n ids) ss ! j = ss ! j"
proof (induction ids arbitrary: n ss)
  case Nil
  then show ?case by simp
next
  case (Cons i ids)
  have step: "assignOrder d (n, i) ss ! j = ss ! j"
    using Cons.prems by (intro assignOrder_other) auto
  have "fold (assignOrder d) (enumerate (Suc n) ids) (assignOrder d (n, i) ss) ! j =
        assignOrder d (n, i) ss ! j"
    using Cons.prems step by (intro Cons.IH) auto
  with step show ?case by simp
qed

lemma fold_assignOrder_hit:
  "distinct ids \<Longrightarrow> distinct (map id_s (filter (\<lambda>s. domain s = d) ss)) \<Longrightarrow>
   j < length ss \<Longrightarrow> k < length ids \<Longrightarrow> domain (ss ! j) = d \<Longrightarrow> id_s (ss ! j) = ids ! k \<Longrightarrow>
   fold (assignOrder d) (enumerate n ids) ss ! j = (ss ! j)\<lparr> order := Some (int (n + k)) \<rparr>"
proof (induction ids arbitrary: n ss k)
  case Nil
  then show ?case by simp
next
  case (Cons i ids)
  let ?ss1 = "assignOrder d (n, i) ss"
  have d1: "distinct (map id_s (filter (\<lambda>s. domain s = d) ?ss1))"
    using Cons.prems(2) by (rule assignOrder_distinct)
  show ?case
  proof (cases k)
    case 0
    then have hit: "?ss1 ! j = (ss ! j)\<lparr> order := Some (int n) \<rparr>"
      using Cons.prems by (intro assignOrder_hit) auto
    have "i \<notin> set ids"
      using Cons.prems(1) by simp
    then have "fold (assignOrder d) (enumerate (Suc n) ids) ?ss1 ! j = ?ss1 ! j"
      using Cons.prems 0 hit by (intro fold_assignOrder_other) auto
    with hit 0 show ?thesis by simp
  next
    case (Suc k')
    then have k': "k' < length ids" "id_s (ss ! j) = ids ! k'"
      using Cons.prems by auto
    then have "id_s (ss ! j) \<in> set ids"
      by simp
    then have "id_s (ss ! j) \<noteq> i"
      using Cons.prems(1) by auto
    then have same: "?ss1 ! j = ss ! j"
      using Cons.prems by (intro assignOrder_other) auto
    have "fold (assignOrder d) (enumerate (Suc n) ids) ?ss1 ! j =
          (?ss1 ! j)\<lparr> order := Some (int (Suc n + k')) \<rparr>"
      using Cons.prems d1 k' same by (intro Cons.IH) auto
    with same Suc show ?thesis by simp
  qed
qed

lemma ids_check:
  assumes "distinct (map id_s ds)" "length ids = length ds"
  shows "list_all (\<lambda>s. id_s s \<in> set ids) ds \<longleftrightarrow> set ids = set (map id_s ds)"
proof
  assume "list_all (\<lambda>s. id_s s \<in> set ids) ds"
  then have sub: "set (map id_s ds) \<subseteq> set ids"
    by (auto simp: list_all_iff)
  have c: "card (set (map id_s ds)) = length ds"
    using distinct_card [OF assms(1)] by simp
  have "card (set ids) \<le> length ids"
    by (rule card_length)
  then have "card (set ids) \<le> card (set (map id_s ds))"
    using c assms(2) by simp
  then have "set (map id_s ds) = set ids"
    using sub by (intro card_seteq) auto
  then show "set ids = set (map id_s ds)"
    by simp
next
  assume "set ids = set (map id_s ds)"
  then show "list_all (\<lambda>s. id_s s \<in> set ids) ds"
    by (auto simp: list_all_iff)
qed

lemma ids_check_distinct:
  assumes "distinct (map id_s ds)" "length ids = length ds" "set ids = set (map id_s ds)"
  shows "distinct ids"
proof -
  have "card (set (map id_s ds)) = length ds"
    using distinct_card [OF assms(1)] by simp
  then have "card (set ids) = length ids"
    using assms(2,3) by simp
  then show ?thesis
    by (rule card_distinct)
qed

subsection \<open>Runs that succeed\<close>




lemma saveCurrentSession_success:
  assumes "V nm = Inr validatedName" "success resp"
  shows "saveCurrentSession V dflt nm resp generatedId now1 now2 st =
    (Inr \<lparr> id_s = generatedId, name = validatedName, domain = currentDomain st,
            createdAt = now1, lastUsed = now2,
            order = Some (plusOne
              (case map orderOrZero (filter (\<lambda>s. domain s = currentDomain st) (sessions st)) of
                 [] \<Rightarrow> - 1 | k # ks \<Rightarrow> fold max ks k)),
            payload = capturedProperties (case data resp of None \<Rightarrow> dflt | Some d \<Rightarrow> d) \<rparr>,
     st\<lparr> sessions := sessions st @
            [\<lparr> id_s = generatedId, name = validatedName, domain = currentDomain st,
                createdAt = now1, lastUsed = now2,
                order = Some (plusOne
                  (case map orderOrZero (filter (\<lambda>s. domain s = currentDomain st) (sessions st)) of
                     [] \<Rightarrow> - 1 | k # ks \<Rightarrow> fold max ks k)),
                payload = capturedProperties (case data resp of None \<Rightarrow> dflt | Some d \<Rightarrow> d) \<rparr>],
          activeSessions := AList.update (currentDomain st) generatedId (activeSessions st) \<rparr>)"
  using assms by (simp add: saveCurrentSession_def Let_def)


lemma overwriteSessionWithCurrent_success:
  assumes "find (\<lambda>x. id_s x = sessionId) (sessions st) = Some s" "domain s = currentDomain st"
    "success resp" "(case nm of None \<Rightarrow> Inr (name s) | Some n \<Rightarrow> V n) = Inr validatedName"
  shows "overwriteSessionWithCurrent V dflt sessionId nm resp now st =
      (Inr (), st\<lparr> sessions := updateFound (\<lambda>x. id_s x = sessionId)
                    (\<lambda>x. x\<lparr> payload := objectAssign (payload x)
                              (capturedProperties (case data resp of None \<Rightarrow> dflt | Some d \<Rightarrow> d)),
                            id_s := id_s s, order := order s, createdAt := createdAt s, domain := domain s,
                            name := validatedName, lastUsed := now \<rparr>) (sessions st),
                  activeSessions := AList.update (currentDomain st) (id_s s) (activeSessions st) \<rparr>)"
  using assms by (simp add: overwriteSessionWithCurrent_def Let_def)

lemma overwritten_session:
  "s\<lparr> payload := p, id_s := id_s s, order := order s, createdAt := createdAt s, domain := domain s,
      name := n, lastUsed := t \<rparr> = s\<lparr> name := n, lastUsed := t, payload := p \<rparr>"
  by (cases s) simp

section \<open>Overwrite in place\<close>

text \<open>
  C1. Let \<open>s\<close> be the stored session with the given id, in the current tab's domain,
  and let the capture succeed. Then every stored session agrees with its old value on
  all fields but \<open>name\<close>, \<open>lastUsed\<close> and \<open>payload\<close> (so \<open>id\<close>, \<open>order\<close>,
  \<open>createdAt\<close> and \<open>domain\<close> are unchanged), every session with another id is
  untouched, and no name changes when none is given. If the validator rejects the new
  name the call fails with the state unchanged; otherwise it succeeds and the session
  with that id is \<open>s\<close> with the validated name (its own when none is given), the clock
  reading as \<open>lastUsed\<close>, and the captured properties assigned over its payload.
\<close>

theorem overwrite_in_place:
  assumes found: "getSession st sessionId = Some s"
    and same_domain: "domain s = currentDomain st"
    and captured: "success resp"
  shows "map (\<lambda>x. x\<lparr> name := [], lastUsed := 0, payload := [] \<rparr>)
             (sessions (snd (overwriteSessionWithCurrent V dflt sessionId nm resp now st))) =
           map (\<lambda>x. x\<lparr> name := [], lastUsed := 0, payload := [] \<rparr>) (sessions st) \<and>
         filter (\<lambda>x. id_s x \<noteq> sessionId)
             (sessions (snd (overwriteSessionWithCurrent V dflt sessionId nm resp now st))) =
           filter (\<lambda>x. id_s x \<noteq> sessionId) (sessions st) \<and>
         (nm = None \<longrightarrow>
            map name (sessions (snd (overwriteSessionWithCurrent V dflt sessionId nm resp now st))) =
            map name (sessions st)) \<and>
         (\<forall>e. (case nm of None \<Rightarrow> Inr (name s) | Some n \<Rightarrow> V n) = Inl e \<longrightarrow>
            overwriteSessionWithCurrent V dflt sessionId nm resp now st = (Inl e, st)) \<and>
         (\<forall>validatedName. (case nm of None \<Rightarrow> Inr (name s) | Some n \<Rightarrow> V n) = Inr validatedName \<longrightarrow>
            fst (overwriteSessionWithCurrent V dflt sessionId nm resp now st) = Inr () \<and>
            getSession (snd (overwriteSessionWithCurrent V dflt sessionId nm resp now st)) sessionId =
              Some (s\<lparr> name := validatedName, lastUsed := now,
                       payload := objectAssign (payload s)
                         (capturedProperties (case data resp of None \<Rightarrow> dflt | Some d \<Rightarrow> d)) \<rparr>))"
proof -
  let ?p = "\<lambda>x. id_s x = sessionId"
  let ?blank = "\<lambda>x. x\<lparr> name := [], lastUsed := 0, payload := [] \<rparr>"
  have f: "find ?p (sessions st) = Some s"
    using found by (simp add: getSession_def)
  have ps: "id_s s = sessionId"
    using find_Some_holds [OF f] by simp
  show ?thesis
  proof (cases "case nm of None \<Rightarrow> Inr (name s) | Some n \<Rightarrow> V n")
    case (Inl e)
    then have "overwriteSessionWithCurrent V dflt sessionId nm resp now st = (Inl e, st)"
      using f same_domain by (simp add: overwriteSessionWithCurrent_def)
    with Inl show ?thesis
      by (cases nm) simp_all
  next
    case (Inr validatedName)
    let ?f = "\<lambda>x. x\<lparr> payload := objectAssign (payload x)
                        (capturedProperties (case data resp of None \<Rightarrow> dflt | Some d \<Rightarrow> d)),
                     id_s := id_s s, order := order s, createdAt := createdAt s, domain := domain s,
                     name := validatedName, lastUsed := now \<rparr>"
    note run = overwriteSessionWithCurrent_success [where V = V and nm = nm, OF f same_domain captured Inr,
        of dflt now]
    have 1: "find ?p (updateFound ?p ?f (sessions st)) = Some (?f s)"
      using f ps by (intro find_updateFound) simp_all
    have 2: "map ?blank (updateFound ?p ?f (sessions st)) = map ?blank (sessions st)"
      using f by (intro map_updateFound_frame, simp, cases s, simp)
    have 3: "filter (\<lambda>x. id_s x \<noteq> sessionId) (updateFound ?p ?f (sessions st)) =
             filter (\<lambda>x. id_s x \<noteq> sessionId) (sessions st)"
      using ps by (intro filter_updateFound) simp
    have 4: "nm = None \<longrightarrow> map name (updateFound ?p ?f (sessions st)) = map name (sessions st)"
    proof
      assume "nm = None"
      with Inr have "validatedName = name s"
        by simp
      then show "map name (updateFound ?p ?f (sessions st)) = map name (sessions st)"
        using f by (intro map_updateFound_frame) simp_all
    qed
    show ?thesis
      unfolding run using Inr 1 2 3 4 by (simp add: getSession_def overwritten_session)
  qed
qed

theorem overwrite_in_place_witness:
  "getSession exampleState ''b2'' = Some sessionB \<and>
   domain sessionB = currentDomain exampleState \<and>
   success captureOk \<and>
   validateSessionNameSpec trimAscii 50 '' Office '' = Inr ''Office'' \<and>
   fst (overwriteSessionWithCurrent (validateSessionNameSpec trimAscii 50) exampleDefault ''b2''
          (Some '' Office '') captureOk 999 exampleState) = Inr () \<and>
   getSession (snd (overwriteSessionWithCurrent (validateSessionNameSpec trimAscii 50) exampleDefault ''b2''
          (Some '' Office '') captureOk 999 exampleState)) ''b2'' =
     Some \<lparr> id_s = ''b2'', name = ''Office'', domain = ''example.com'', createdAt = 200,
            lastUsed = 999, order = Some 1, payload = [(''cookies'', ''[sid=9]'')] \<rparr>"
proof -
  have h1: "getSession exampleState ''b2'' = Some sessionB"
    by code_simp
  have h2: "domain sessionB = currentDomain exampleState"
    by code_simp
  have h3: "success captureOk"
    by code_simp
  have v: "validateSessionNameSpec trimAscii 50 '' Office '' = Inr ''Office''"
    by code_simp
  have h4: "(case Some '' Office '' of None \<Rightarrow> Inr (name sessionB) | Some n \<Rightarrow> validateSessionNameSpec trimAscii 50 n) =
            Inr ''Office''"
    using v by simp
  have e: "sessionB\<lparr> name := ''Office'', lastUsed := 999,
              payload := objectAssign (payload sessionB)
                (capturedProperties (case data captureOk of None \<Rightarrow> exampleDefault | Some d \<Rightarrow> d)) \<rparr> =
           \<lparr> id_s = ''b2'', name = ''Office'', domain = ''example.com'', createdAt = 200,
             lastUsed = 999, order = Some 1, payload = [(''cookies'', ''[sid=9]'')] \<rparr>"
    by code_simp
  note t = overwrite_in_place [where V = "validateSessionNameSpec trimAscii 50" and nm = "Some '' Office ''",
      OF h1 h2 h3, of exampleDefault 999]
  from t have "\<forall>validatedName.
      (case Some '' Office '' of None \<Rightarrow> Inr (name sessionB) | Some n \<Rightarrow> validateSessionNameSpec trimAscii 50 n) =
        Inr validatedName \<longrightarrow>
      fst (overwriteSessionWithCurrent (validateSessionNameSpec trimAscii 50) exampleDefault ''b2''
             (Some '' Office '') captureOk 999 exampleState) = Inr () \<and>
      getSession (snd (overwriteSessionWithCurrent (validateSessionNameSpec trimAscii 50) exampleDefault ''b2''
             (Some '' Office '') captureOk 999 exampleState)) ''b2'' =
        Some (sessionB\<lparr> name := validatedName, lastUsed := 999,
                payload := objectAssign (payload sessionB)
                  (capturedProperties (case data captureOk of None \<Rightarrow> exampleDefault | Some d \<Rightarrow> d)) \<rparr>)"
    by blast
  note r = this [rule_format, OF h4, unfolded e]
  show ?thesis
    using h1 h2 h3 v r by blast
qed

section \<open>Rename\<close>

text \<open>
  C4. Whatever the two string built-ins are: when the session to rename exists, the new
  name passes validation (the validator returning a name that trims and lowercases to
  the same text), and another session of the same domain has that name after trimming
  and lowercasing, then \<open>renameSession\<close> without \<open>overwrite\<close> fails with
  \<open>NameConflictError\<close> and the state it leaves is the state it was given.
\<close>

theorem rename_conflict_rejected:
  assumes found: "getSession st sessionId = Some s"
    and valid: "V newName = Inr validatedName"
    and same: "toLowerCase (trim validatedName) = toLowerCase (trim newName)"
    and other: "c \<in> set (sessions st)" "id_s c \<noteq> sessionId" "domain c = domain s"
    and match: "toLowerCase (trim (name c)) = toLowerCase (trim newName)"
  shows "renameSession V trim toLowerCase sessionId newName False st = (Inl NameConflictError, st)"
proof -
  have "\<exists>y. findSessionByName trim toLowerCase st (domain s) validatedName (Some sessionId) = Some y"
    unfolding findSessionByName_def Let_def
    using other match same by (intro find_exists [of c]) simp_all
  then show ?thesis
    using found valid by (auto simp: renameSession_def getSession_def Let_def)
qed

theorem rename_conflict_rejected_witness:
  "getSession exampleState ''b2'' = Some sessionB \<and>
   validateSessionNameSpec trimAscii 50 '' WORK'' = Inr ''WORK'' \<and>
   sessionA \<in> set (sessions exampleState) \<and> id_s sessionA \<noteq> ''b2'' \<and>
   domain sessionA = domain sessionB \<and>
   toLowerCaseAscii (trimAscii (name sessionA)) = toLowerCaseAscii (trimAscii '' WORK'') \<and>
   renameSession (validateSessionNameSpec trimAscii 50) trimAscii toLowerCaseAscii ''b2'' '' WORK'' False
       exampleState =
     (Inl NameConflictError, exampleState)"
proof -
  have h1: "getSession exampleState ''b2'' = Some sessionB"
    by code_simp
  have h2: "validateSessionNameSpec trimAscii 50 '' WORK'' = Inr ''WORK''"
    by code_simp
  have h3: "toLowerCaseAscii (trimAscii ''WORK'') = toLowerCaseAscii (trimAscii '' WORK'')"
    by code_simp
  have h4: "sessionA \<in> set (sessions exampleState)"
    by (simp add: exampleState_def)
  have h5: "id_s sessionA \<noteq> ''b2''"
    by code_simp
  have h6: "domain sessionA = domain sessionB"
    by code_simp
  have h7: "toLowerCaseAscii (trimAscii (name sessionA)) = toLowerCaseAscii (trimAscii '' WORK'')"
    by code_simp
  note t = rename_conflict_rejected [where V = "validateSessionNameSpec trimAscii 50"
      and trim = trimAscii and toLowerCase = toLowerCaseAscii and newName = "'' WORK''",
      OF h1 h2 h3 h4 h5 h6 h7]
  show ?thesis
    using t h1 h2 h4 h5 h6 h7 by blast
qed

text \<open>
  C5, as the claim states it, fails when two stored sessions match. In the store
  where \<open>a1\<close> ("work") and \<open>d4\<close> ("WORK") share a name, \<open>d4\<close> being the active
  session, renaming \<open>b2\<close> to "work" with \<open>overwrite\<close> removes \<open>a1\<close>, the first
  match; \<open>d4\<close> is a conflicting session too, yet it stays stored and stays the active
  session of the domain.
\<close>

theorem rename_overwrite_removes_first_match_only:
  "getSession duplicateNameState ''b2'' = Some sessionB \<and>
   validateSessionNameSpec trimAscii 50 ''work'' = Inr ''work'' \<and>
   sessionD \<in> set (sessions duplicateNameState) \<and>
   domain sessionD = domain sessionB \<and> id_s sessionD \<noteq> ''b2'' \<and>
   toLowerCaseAscii (trimAscii (name sessionD)) = toLowerCaseAscii (trimAscii ''work'') \<and>
   map_of (activeSessions duplicateNameState) (domain sessionB) = Some (id_s sessionD) \<and>
   renameSession (validateSessionNameSpec trimAscii 50) trimAscii toLowerCaseAscii ''b2'' ''work'' True
       duplicateNameState =
     (Inr (), duplicateNameState\<lparr> sessions := [sessionB\<lparr> name := ''work'' \<rparr>, sessionC, sessionD] \<rparr>) \<and>
   getSession (snd (renameSession (validateSessionNameSpec trimAscii 50) trimAscii toLowerCaseAscii ''b2''
       ''work'' True duplicateNameState)) ''d4'' = Some sessionD \<and>
   map_of (activeSessions (snd (renameSession (validateSessionNameSpec trimAscii 50) trimAscii
       toLowerCaseAscii ''b2'' ''work'' True duplicateNameState))) (domain sessionB) = Some ''d4''"
  by code_simp

text \<open>
  C5, amended. Whatever the two string built-ins are: when the conflict scan of
  \<open>renameSession\<close> returns the session \<open>c\<close> (the first stored session of the renamed
  session's domain that has another id and the same trimmed, lowercased name), then
  with \<open>overwrite\<close> the call succeeds, no session with the id of \<open>c\<close> is left, the
  session with the given id carries the new name and is otherwise as before, every
  other session (a further match included) is untouched, and the domain's active
  pointer is redirected to the renamed session if it pointed to \<open>c\<close> and is unchanged
  otherwise, as are the pointers of the other domains.
\<close>

theorem rename_overwrite_replaces_conflict:
  assumes found: "getSession st sessionId = Some s"
    and valid: "V newName = Inr validatedName"
    and conflict: "findSessionByName trim toLowerCase st (domain s) validatedName (Some sessionId) = Some c"
  shows "c \<in> set (sessions st) \<and> domain c = domain s \<and> id_s c \<noteq> sessionId \<and>
         toLowerCase (trim (name c)) = toLowerCase (trim validatedName) \<and>
         fst (renameSession V trim toLowerCase sessionId newName True st) = Inr () \<and>
         list_all (\<lambda>x. id_s x \<noteq> id_s c)
           (sessions (snd (renameSession V trim toLowerCase sessionId newName True st))) \<and>
         getSession (snd (renameSession V trim toLowerCase sessionId newName True st)) sessionId =
           Some (s\<lparr> name := validatedName \<rparr>) \<and>
         filter (\<lambda>x. id_s x \<noteq> sessionId)
             (sessions (snd (renameSession V trim toLowerCase sessionId newName True st))) =
           filter (\<lambda>x. id_s x \<noteq> id_s c \<and> id_s x \<noteq> sessionId) (sessions st) \<and>
         map_of (activeSessions (snd (renameSession V trim toLowerCase sessionId newName True st))) (domain s) =
           (if map_of (activeSessions st) (domain s) = Some (id_s c) then Some sessionId
            else map_of (activeSessions st) (domain s)) \<and>
         (\<forall>d. d \<noteq> domain s \<longrightarrow>
            map_of (activeSessions (snd (renameSession V trim toLowerCase sessionId newName True st))) d =
            map_of (activeSessions st) d)"
proof -
  let ?p = "\<lambda>x. id_s x = sessionId"
  let ?f = "\<lambda>x. x\<lparr> name := validatedName \<rparr>"
  let ?kept = "filter (\<lambda>x. id_s x \<noteq> id_s c) (sessions st)"
  let ?act = "if map_of (activeSessions st) (domain s) = Some (id_s c)
              then AList.update (domain s) sessionId (activeSessions st) else activeSessions st"
  have f: "find ?p (sessions st) = Some s"
    using found by (simp add: getSession_def)
  have c: "c \<in> set (sessions st) \<and> domain c = domain s \<and> id_s c \<noteq> sessionId \<and>
           toLowerCase (trim (name c)) = toLowerCase (trim validatedName)"
    using find_Some_holds [OF conflict [unfolded findSessionByName_def Let_def]] by simp
  have run: "renameSession V trim toLowerCase sessionId newName True st =
      (Inr (), st\<lparr> sessions := updateFound ?p ?f ?kept, activeSessions := ?act \<rparr>)"
    using f valid conflict by (simp add: renameSession_def Let_def)
  have fk: "find ?p ?kept = Some s"
    using c f by (subst find_filter) auto
  have 1: "find ?p (updateFound ?p ?f ?kept) = Some (?f s)"
    using fk find_Some_holds [OF f] by (intro find_updateFound) simp_all
  have 2: "list_all (\<lambda>x. id_s x \<noteq> id_s c) (updateFound ?p ?f ?kept)"
    by (rule list_all_updateFound) (simp_all add: list_all_iff)
  have 3: "filter (\<lambda>x. id_s x \<noteq> sessionId) (updateFound ?p ?f ?kept) =
           filter (\<lambda>x. id_s x \<noteq> id_s c \<and> id_s x \<noteq> sessionId) (sessions st)"
  proof -
    have "filter (\<lambda>x. id_s x \<noteq> sessionId) (updateFound ?p ?f ?kept) =
          filter (\<lambda>x. id_s x \<noteq> sessionId) ?kept"
      by (intro filter_updateFound) simp
    then show ?thesis
      by simp
  qed
  have 4: "map_of ?act (domain s) =
           (if map_of (activeSessions st) (domain s) = Some (id_s c) then Some sessionId
            else map_of (activeSessions st) (domain s))"
    by (simp add: update_conv')
  have 5: "\<forall>d. d \<noteq> domain s \<longrightarrow> map_of ?act d = map_of (activeSessions st) d"
    by (simp add: update_conv')
  show ?thesis
    unfolding run using c 1 2 3 4 5 by (simp add: getSession_def)
qed

theorem rename_overwrite_replaces_conflict_witness:
  "getSession exampleState ''b2'' = Some sessionB \<and>
   validateSessionNameSpec trimAscii 50 '' WORK'' = Inr ''WORK'' \<and>
   findSessionByName trimAscii toLowerCaseAscii exampleState (domain sessionB) ''WORK'' (Some ''b2'') =
     Some sessionA \<and>
   map_of (activeSessions exampleState) (domain sessionB) = Some (id_s sessionA) \<and>
   fst (renameSession (validateSessionNameSpec trimAscii 50) trimAscii toLowerCaseAscii ''b2'' '' WORK'' True
          exampleState) = Inr () \<and>
   list_all (\<lambda>x. id_s x \<noteq> id_s sessionA)
     (sessions (snd (renameSession (validateSessionNameSpec trimAscii 50) trimAscii toLowerCaseAscii ''b2''
        '' WORK'' True exampleState))) \<and>
   getSession (snd (renameSession (validateSessionNameSpec trimAscii 50) trimAscii toLowerCaseAscii ''b2''
        '' WORK'' True exampleState)) ''b2'' = Some (sessionB\<lparr> name := ''WORK'' \<rparr>) \<and>
   map_of (activeSessions (snd (renameSession (validateSessionNameSpec trimAscii 50) trimAscii
        toLowerCaseAscii ''b2'' '' WORK'' True exampleState))) (domain sessionB) = Some ''b2''"
proof -
  have h1: "getSession exampleState ''b2'' = Some sessionB"
    by code_simp
  have h2: "validateSessionNameSpec trimAscii 50 '' WORK'' = Inr ''WORK''"
    by code_simp
  have h3: "findSessionByName trimAscii toLowerCaseAscii exampleState (domain sessionB) ''WORK'' (Some ''b2'') =
            Some sessionA"
    by code_simp
  have h4: "map_of (activeSessions exampleState) (domain sessionB) = Some (id_s sessionA)"
    by code_simp
  note t = rename_overwrite_replaces_conflict [where V = "validateSessionNameSpec trimAscii 50"
      and trim = trimAscii and toLowerCase = toLowerCaseAscii and newName = "'' WORK''", OF h1 h2 h3]
  show ?thesis
    using t h1 h2 h3 h4 by simp
qed

section \<open>Reorder\<close>

text \<open>
  C7. In a state whose sessions of the current domain have distinct ids (the data
  model's invariant), \<open>reorderSessions\<close> fails and leaves the state as it was when
  the list's length differs from the number of sessions of the current domain or the
  set of the ids supplied differs from the set of their ids. Otherwise it succeeds,
  changes nothing but \<open>sessions\<close>, keeps every session of another domain as it was, and
  turns every session of the current domain into itself with \<open>order\<close> set to the
  position of its id in the list.
\<close>

theorem reorder_all_or_nothing:
  assumes unique: "distinct (map id_s (filter (\<lambda>s. domain s = currentDomain st) (sessions st)))"
  shows "if length sessionIds \<noteq> length (filter (\<lambda>s. domain s = currentDomain st) (sessions st)) \<or>
            set sessionIds \<noteq> set (map id_s (filter (\<lambda>s. domain s = currentDomain st) (sessions st)))
         then isl (fst (reorderSessions sessionIds st)) \<and> snd (reorderSessions sessionIds st) = st
         else fst (reorderSessions sessionIds st) = Inr () \<and>
              snd (reorderSessions sessionIds st) =
                st\<lparr> sessions := sessions (snd (reorderSessions sessionIds st)) \<rparr> \<and>
              length (sessions (snd (reorderSessions sessionIds st))) = length (sessions st) \<and>
              (\<forall>j < length (sessions st). domain (sessions st ! j) \<noteq> currentDomain st \<longrightarrow>
                 sessions (snd (reorderSessions sessionIds st)) ! j = sessions st ! j) \<and>
              (\<forall>j < length (sessions st). \<forall>k < length sessionIds.
                 domain (sessions st ! j) = currentDomain st \<and> id_s (sessions st ! j) = sessionIds ! k \<longrightarrow>
                 sessions (snd (reorderSessions sessionIds st)) ! j =
                   (sessions st ! j)\<lparr> order := Some (int k) \<rparr>)"
proof -
  let ?d = "currentDomain st"
  let ?ds = "filter (\<lambda>s. domain s = ?d) (sessions st)"
  show ?thesis
  proof (cases "length sessionIds = length ?ds")
    case False
    then show ?thesis
      by (simp add: reorderSessions_def Let_def)
  next
    case len: True
    show ?thesis
    proof (cases "set sessionIds = set (map id_s ?ds)")
      case False
      then have "\<not> list_all (\<lambda>s. id_s s \<in> set sessionIds) ?ds"
        using ids_check [OF unique len] by simp
      with len False show ?thesis
        by (simp add: reorderSessions_def Let_def)
    next
      case True
      then have all: "list_all (\<lambda>s. id_s s \<in> set sessionIds) ?ds"
        using ids_check [OF unique len] by simp
      have dist: "distinct sessionIds"
        using unique len True by (rule ids_check_distinct)
      have run: "reorderSessions sessionIds st =
          (Inr (), st\<lparr> sessions := fold (assignOrder ?d) (enumerate 0 sessionIds) (sessions st) \<rparr>)"
        using len all by (simp add: reorderSessions_def Let_def)
      have other: "\<forall>j < length (sessions st). domain (sessions st ! j) \<noteq> ?d \<longrightarrow>
          fold (assignOrder ?d) (enumerate 0 sessionIds) (sessions st) ! j = sessions st ! j"
        by (simp add: fold_assignOrder_other)
      have hit: "\<forall>j < length (sessions st). \<forall>k < length sessionIds.
          domain (sessions st ! j) = ?d \<and> id_s (sessions st ! j) = sessionIds ! k \<longrightarrow>
          fold (assignOrder ?d) (enumerate 0 sessionIds) (sessions st) ! j =
            (sessions st ! j)\<lparr> order := Some (int k) \<rparr>"
        using fold_assignOrder_hit [OF dist unique, where n = 0] by simp
      show ?thesis
        unfolding run using len True other hit by simp
    qed
  qed
qed

theorem reorder_all_or_nothing_witness:
  "distinct (map id_s (filter (\<lambda>s. domain s = currentDomain exampleState) (sessions exampleState))) \<and>
   fst (reorderSessions [''b2'', ''a1''] exampleState) = Inr () \<and>
   sessions (snd (reorderSessions [''b2'', ''a1''] exampleState)) ! 0 = sessionA\<lparr> order := Some 1 \<rparr> \<and>
   sessions (snd (reorderSessions [''b2'', ''a1''] exampleState)) ! 1 = sessionB\<lparr> order := Some 0 \<rparr> \<and>
   sessions (snd (reorderSessions [''b2'', ''a1''] exampleState)) ! 2 = sessionC \<and>
   isl (fst (reorderSessions [''b2'', ''zz''] exampleState)) \<and>
   snd (reorderSessions [''b2'', ''zz''] exampleState) = exampleState"
proof -
  let ?st = "snd (reorderSessions [''b2'', ''a1''] exampleState)"
  have u: "distinct (map id_s (filter (\<lambda>s. domain s = currentDomain exampleState) (sessions exampleState)))"
    by code_simp
  have accepted: "\<not> (length [''b2'', ''a1''] \<noteq>
        length (filter (\<lambda>s. domain s = currentDomain exampleState) (sessions exampleState)) \<or>
      set [''b2'', ''a1''] \<noteq>
        set (map id_s (filter (\<lambda>s. domain s = currentDomain exampleState) (sessions exampleState))))"
    by code_simp
  have rejected: "length [''b2'', ''zz''] \<noteq>
        length (filter (\<lambda>s. domain s = currentDomain exampleState) (sessions exampleState)) \<or>
      set [''b2'', ''zz''] \<noteq>
        set (map id_s (filter (\<lambda>s. domain s = currentDomain exampleState) (sessions exampleState)))"
    by code_simp
  note good = reorder_all_or_nothing [OF u, of "[''b2'', ''a1'']", unfolded if_not_P [OF accepted]]
  note bad = reorder_all_or_nothing [OF u, of "[''b2'', ''zz'']", unfolded if_P [OF rejected]]
  from good have other: "\<forall>j < length (sessions exampleState).
      domain (sessions exampleState ! j) \<noteq> currentDomain exampleState \<longrightarrow>
      sessions ?st ! j = sessions exampleState ! j"
    by blast
  from good have hit: "\<forall>j < length (sessions exampleState). \<forall>k < length [''b2'', ''a1''].
      domain (sessions exampleState ! j) = currentDomain exampleState \<and>
      id_s (sessions exampleState ! j) = [''b2'', ''a1''] ! k \<longrightarrow>
      sessions ?st ! j = (sessions exampleState ! j)\<lparr> order := Some (int k) \<rparr>"
    by blast
  have a1: "0 < length (sessions exampleState)" and a2: "1 < length [''b2'', ''a1'']"
    and a3: "domain (sessions exampleState ! 0) = currentDomain exampleState \<and>
             id_s (sessions exampleState ! 0) = [''b2'', ''a1''] ! 1"
    and a4: "sessions exampleState ! 0 = sessionA"
    by code_simp+
  have b1: "1 < length (sessions exampleState)" and b2: "0 < length [''b2'', ''a1'']"
    and b3: "domain (sessions exampleState ! 1) = currentDomain exampleState \<and>
             id_s (sessions exampleState ! 1) = [''b2'', ''a1''] ! 0"
    and b4: "sessions exampleState ! 1 = sessionB"
    by code_simp+
  have c1: "2 < length (sessions exampleState)"
    and c3: "domain (sessions exampleState ! 2) \<noteq> currentDomain exampleState"
    and c4: "sessions exampleState ! 2 = sessionC"
    by code_simp+
  have a: "sessions ?st ! 0 = sessionA\<lparr> order := Some 1 \<rparr>"
    using hit [rule_format, OF a1 a2 a3] unfolding a4 by simp
  have b: "sessions ?st ! 1 = sessionB\<lparr> order := Some 0 \<rparr>"
    using hit [rule_format, OF b1 b2 b3] unfolding b4 by simp
  have c: "sessions ?st ! 2 = sessionC"
    using other [rule_format, OF c1 c3] unfolding c4 by simp
  from good have "fst (reorderSessions [''b2'', ''a1''] exampleState) = Inr ()"
    by blast
  then show ?thesis
    using u a b c bad by simp
qed

section \<open>Save\<close>




text \<open>
  C3. \<open>saveCurrentSession\<close> does not compare the name with the stored ones: in the
  example state the domain \<open>example.com\<close> has a session named "work", and saving
  under the name " WORK " succeeds and appends a second session whose name trims and
  lowercases to the same text.
\<close>

theorem save_accepts_duplicate_name:
  "domain sessionA = currentDomain exampleState \<and>
   toLowerCaseAscii (trimAscii (name sessionA)) = toLowerCaseAscii (trimAscii '' WORK '') \<and>
   saveCurrentSession (validateSessionNameSpec trimAscii 50) exampleDefault '' WORK '' captureOk ''d4'' 1000 1001
       exampleState =
     (Inr \<lparr> id_s = ''d4'', name = ''WORK'', domain = ''example.com'', createdAt = 1000, lastUsed = 1001,
             order = Some 2, payload = [(''cookies'', ''[sid=9]'')] \<rparr>,
      exampleState\<lparr> sessions := [sessionA, sessionB, sessionC,
                        \<lparr> id_s = ''d4'', name = ''WORK'', domain = ''example.com'', createdAt = 1000,
                          lastUsed = 1001, order = Some 2, payload = [(''cookies'', ''[sid=9]'')] \<rparr>],
                     activeSessions := [(''example.com'', ''d4''), (''other.org'', ''c3'')] \<rparr>)"
  by code_simp

section \<open>A capture without data\<close>

text \<open>
  C10. Let the agent answer \<^verbatim>\<open>success: true\<close> without data. Then
  \<open>saveCurrentSession\<close> and \<open>overwriteSessionWithCurrent\<close> return exactly what they
  return when the data is \<^verbatim>\<open>storedSessionDefaultValue\<close>. Whenever the validator
  accepts the name, the save does not fail: it returns the new session, whose payload
  is the default one, appends it to the stored sessions and makes it the active
  session of the current domain. Whenever the target exists, is of the current domain
  and the name (if one is given) is valid, the overwrite does not fail: the target gets
  the default payload assigned over its own, the new name and \<open>lastUsed\<close>, and becomes
  the active session of the current domain.
\<close>

theorem missing_capture_data_uses_default:
  assumes captured: "success resp" and no_data: "data resp = None"
  shows "saveCurrentSession V dflt nm resp generatedId now1 now2 st =
           saveCurrentSession V dflt nm (resp\<lparr> data := Some dflt \<rparr>) generatedId now1 now2 st \<and>
         overwriteSessionWithCurrent V dflt sessionId nm' resp now st =
           overwriteSessionWithCurrent V dflt sessionId nm' (resp\<lparr> data := Some dflt \<rparr>) now st \<and>
         (\<forall>validatedName. V nm = Inr validatedName \<longrightarrow>
            saveCurrentSession V dflt nm resp generatedId now1 now2 st =
              (Inr \<lparr> id_s = generatedId, name = validatedName, domain = currentDomain st,
                      createdAt = now1, lastUsed = now2,
                      order = Some (plusOne
                        (case map orderOrZero (filter (\<lambda>s. domain s = currentDomain st) (sessions st)) of
                           [] \<Rightarrow> - 1 | k # ks \<Rightarrow> fold max ks k)),
                      payload = capturedProperties dflt \<rparr>,
               st\<lparr> sessions := sessions st @
                      [\<lparr> id_s = generatedId, name = validatedName, domain = currentDomain st,
                          createdAt = now1, lastUsed = now2,
                          order = Some (plusOne
                            (case map orderOrZero (filter (\<lambda>s. domain s = currentDomain st) (sessions st)) of
                               [] \<Rightarrow> - 1 | k # ks \<Rightarrow> fold max ks k)),
                          payload = capturedProperties dflt \<rparr>],
                    activeSessions := AList.update (currentDomain st) generatedId (activeSessions st) \<rparr>)) \<and>
         (\<forall>s validatedName.
            getSession st sessionId = Some s \<and> domain s = currentDomain st \<and>
            (case nm' of None \<Rightarrow> Inr (name s) | Some n \<Rightarrow> V n) = Inr validatedName \<longrightarrow>
            fst (overwriteSessionWithCurrent V dflt sessionId nm' resp now st) = Inr () \<and>
            getSession (snd (overwriteSessionWithCurrent V dflt sessionId nm' resp now st)) sessionId =
              Some (s\<lparr> name := validatedName, lastUsed := now,
                       payload := objectAssign (payload s) (capturedProperties dflt) \<rparr>) \<and>
            filter (\<lambda>x. id_s x \<noteq> sessionId)
                (sessions (snd (overwriteSessionWithCurrent V dflt sessionId nm' resp now st))) =
              filter (\<lambda>x. id_s x \<noteq> sessionId) (sessions st) \<and>
            activeSessions (snd (overwriteSessionWithCurrent V dflt sessionId nm' resp now st)) =
              AList.update (currentDomain st) sessionId (activeSessions st))"
proof -
  let ?resp' = "resp\<lparr> data := Some dflt \<rparr>"
  have captured': "success ?resp'"
    using captured by simp
  have same_message: "errorOr ?resp' m = errorOr resp m" for m
    by (simp add: errorOr_def)
  have 1: "saveCurrentSession V dflt nm resp generatedId now1 now2 st =
           saveCurrentSession V dflt nm ?resp' generatedId now1 now2 st"
    using no_data by (simp add: saveCurrentSession_def Let_def same_message split: sum.splits)
  have 2: "overwriteSessionWithCurrent V dflt sessionId nm' resp now st =
           overwriteSessionWithCurrent V dflt sessionId nm' ?resp' now st"
    using no_data
    by (simp add: overwriteSessionWithCurrent_def Let_def same_message split: option.splits sum.splits)
  have 3: "saveCurrentSession V dflt nm resp generatedId now1 now2 st =
      (Inr \<lparr> id_s = generatedId, name = validatedName, domain = currentDomain st,
              createdAt = now1, lastUsed = now2,
              order = Some (plusOne
                (case map orderOrZero (filter (\<lambda>s. domain s = currentDomain st) (sessions st)) of
                   [] \<Rightarrow> - 1 | k # ks \<Rightarrow> fold max ks k)),
              payload = capturedProperties dflt \<rparr>,
       st\<lparr> sessions := sessions st @
              [\<lparr> id_s = generatedId, name = validatedName, domain = currentDomain st,
                  createdAt = now1, lastUsed = now2,
                  order = Some (plusOne
                    (case map orderOrZero (filter (\<lambda>s. domain s = currentDomain st) (sessions st)) of
                       [] \<Rightarrow> - 1 | k # ks \<Rightarrow> fold max ks k)),
                  payload = capturedProperties dflt \<rparr>],
            activeSessions := AList.update (currentDomain st) generatedId (activeSessions st) \<rparr>)"
    if valid: "V nm = Inr validatedName" for validatedName
    unfolding saveCurrentSession_success [where V = V and nm = nm, OF valid captured]
    using no_data by simp
  have 4: "fst (overwriteSessionWithCurrent V dflt sessionId nm' resp now st) = Inr () \<and>
      getSession (snd (overwriteSessionWithCurrent V dflt sessionId nm' resp now st)) sessionId =
        Some (s\<lparr> name := validatedName, lastUsed := now,
                 payload := objectAssign (payload s) (capturedProperties dflt) \<rparr>) \<and>
      filter (\<lambda>x. id_s x \<noteq> sessionId)
          (sessions (snd (overwriteSessionWithCurrent V dflt sessionId nm' resp now st))) =
        filter (\<lambda>x. id_s x \<noteq> sessionId) (sessions st) \<and>
      activeSessions (snd (overwriteSessionWithCurrent V dflt sessionId nm' resp now st)) =
        AList.update (currentDomain st) sessionId (activeSessions st)"
    if found: "getSession st sessionId = Some s" and same_domain: "domain s = currentDomain st"
      and valid: "(case nm' of None \<Rightarrow> Inr (name s) | Some n \<Rightarrow> V n) = Inr validatedName"
    for s validatedName
  proof -
    let ?p = "\<lambda>x. id_s x = sessionId"
    let ?f = "\<lambda>x. x\<lparr> payload := objectAssign (payload x)
                       (capturedProperties (case data resp of None \<Rightarrow> dflt | Some d \<Rightarrow> d)),
                     id_s := id_s s, order := order s, createdAt := createdAt s, domain := domain s,
                     name := validatedName, lastUsed := now \<rparr>"
    have f: "find ?p (sessions st) = Some s"
      using found by (simp add: getSession_def)
    have ps: "id_s s = sessionId"
      using find_Some_holds [OF f] by simp
    note run = overwriteSessionWithCurrent_success [where V = V and nm = nm', OF f same_domain captured valid,
        of dflt now]
    have a: "find ?p (updateFound ?p ?f (sessions st)) = Some (?f s)"
      using f ps by (intro find_updateFound) simp_all
    have b: "filter (\<lambda>x. id_s x \<noteq> sessionId) (updateFound ?p ?f (sessions st)) =
             filter (\<lambda>x. id_s x \<noteq> sessionId) (sessions st)"
      using ps by (intro filter_updateFound) simp
    show ?thesis
      unfolding run using a b ps no_data by (simp add: getSession_def overwritten_session)
  qed
  show ?thesis
    using 1 2 3 4 by blast
qed

theorem missing_capture_data_uses_default_witness:
  "success captureEmpty \<and> data captureEmpty = None \<and>
   validateSessionNameSpec trimAscii 50 ''Play'' = Inr ''Play'' \<and>
   saveCurrentSession (validateSessionNameSpec trimAscii 50) exampleDefault ''Play'' captureEmpty
       ''d4'' 1000 1001 emptyState =
     (Inr \<lparr> id_s = ''d4'', name = ''Play'', domain = ''example.com'', createdAt = 1000, lastUsed = 1001,
             order = Some 0, payload = exampleDefault \<rparr>,
      emptyState\<lparr> sessions := [\<lparr> id_s = ''d4'', name = ''Play'', domain = ''example.com'',
                                  createdAt = 1000, lastUsed = 1001, order = Some 0,
                                  payload = exampleDefault \<rparr>],
                   activeSessions := [(''example.com'', ''d4'')] \<rparr>) \<and>
   getSession exampleState ''b2'' = Some sessionB \<and>
   domain sessionB = currentDomain exampleState \<and>
   fst (overwriteSessionWithCurrent (validateSessionNameSpec trimAscii 50) exampleDefault ''b2'' None
          captureEmpty 999 exampleState) = Inr () \<and>
   getSession (snd (overwriteSessionWithCurrent (validateSessionNameSpec trimAscii 50) exampleDefault ''b2''
          None captureEmpty 999 exampleState)) ''b2'' =
     Some (sessionB\<lparr> lastUsed := 999,
             payload := [(''cookies'', ''[]''), (''localStorage'', ''{}''), (''sessionStorage'', ''{}'')] \<rparr>)"
proof -
  have h1: "success captureEmpty" and h2: "data captureEmpty = None"
    and h3: "validateSessionNameSpec trimAscii 50 ''Play'' = Inr ''Play''"
    and h4: "getSession exampleState ''b2'' = Some sessionB"
    and h5: "domain sessionB = currentDomain exampleState"
    by code_simp+
  have h6: "(case None of None \<Rightarrow> Inr (name sessionB) | Some n \<Rightarrow> validateSessionNameSpec trimAscii 50 n) =
            Inr (name sessionB)"
    by simp
  have e1: "(Inr \<lparr> id_s = ''d4'', name = ''Play'', domain = currentDomain emptyState,
                   createdAt = 1000, lastUsed = 1001,
                   order = Some (plusOne
                     (case map orderOrZero (filter (\<lambda>s. domain s = currentDomain emptyState) (sessions emptyState)) of
                        [] \<Rightarrow> - 1 | k # ks \<Rightarrow> fold max ks k)),
                   payload = capturedProperties exampleDefault \<rparr>,
             emptyState\<lparr> sessions := sessions emptyState @
                   [\<lparr> id_s = ''d4'', name = ''Play'', domain = currentDomain emptyState,
                       createdAt = 1000, lastUsed = 1001,
                       order = Some (plusOne
                         (case map orderOrZero (filter (\<lambda>s. domain s = currentDomain emptyState) (sessions emptyState)) of
                            [] \<Rightarrow> - 1 | k # ks \<Rightarrow> fold max ks k)),
                       payload = capturedProperties exampleDefault \<rparr>],
                 activeSessions := AList.update (currentDomain emptyState) ''d4'' (activeSessions emptyState) \<rparr>) =
            ((Inr \<lparr> id_s = ''d4'', name = ''Play'', domain = ''example.com'', createdAt = 1000, lastUsed = 1001,
                    order = Some 0, payload = exampleDefault \<rparr>,
             emptyState\<lparr> sessions := [\<lparr> id_s = ''d4'', name = ''Play'', domain = ''example.com'',
                                  createdAt = 1000, lastUsed = 1001, order = Some 0,
                                  payload = exampleDefault \<rparr>],
                   activeSessions := [(''example.com'', ''d4'')] \<rparr>) :: (error + session) \<times> popup_state)"
    by code_simp
  have e2: "sessionB\<lparr> name := name sessionB, lastUsed := 999,
              payload := objectAssign (payload sessionB) (capturedProperties exampleDefault) \<rparr> =
            sessionB\<lparr> lastUsed := 999,
              payload := [(''cookies'', ''[]''), (''localStorage'', ''{}''), (''sessionStorage'', ''{}'')] \<rparr>"
    by code_simp
  note saved = missing_capture_data_uses_default [where V = "validateSessionNameSpec trimAscii 50"
      and nm = "''Play''" and st = emptyState and dflt = exampleDefault and generatedId = "''d4''"
      and ?now1.0 = 1000 and ?now2.0 = 1001, OF h1 h2, THEN conjunct2, THEN conjunct2, THEN conjunct1,
      rule_format, OF h3, unfolded e1]
  note over = missing_capture_data_uses_default [where V = "validateSessionNameSpec trimAscii 50"
      and nm' = None and st = exampleState and dflt = exampleDefault and sessionId = "''b2''" and now = 999,
      OF h1 h2, THEN conjunct2, THEN conjunct2, THEN conjunct2, rule_format, OF conjI [OF h4 conjI [OF h5 h6]],
      unfolded e2]
  show ?thesis
    using h1 h2 h3 h4 h5 saved over by blast
qed

section \<open>Delete\<close>

text \<open>
  What \<open>deleteSession\<close> does in every state: it never fails, removes the sessions
  with the given id (none when the id is unknown), clears the pointer of the current
  domain when it holds that id, and leaves the pointers of all other domains alone.
\<close>

lemma deleteSession_effect:
  "fst (deleteSession sessionId st) = Inr () \<and>
   sessions (snd (deleteSession sessionId st)) = filter (\<lambda>s. id_s s \<noteq> sessionId) (sessions st) \<and>
   map_of (activeSessions (snd (deleteSession sessionId st))) (currentDomain st) =
     (if map_of (activeSessions st) (currentDomain st) = Some sessionId then None
      else map_of (activeSessions st) (currentDomain st)) \<and>
   (\<forall>d. d \<noteq> currentDomain st \<longrightarrow>
      map_of (activeSessions (snd (deleteSession sessionId st))) d = map_of (activeSessions st) d)"
  by (simp add: deleteSession_def Let_def delete_conv')

text \<open>
  C6. \<open>deleteSession\<close> looks for the pointer to clear under the current domain only.
  In the example store, seen from a tab of \<open>other.org\<close>, the session \<open>a1\<close> is the
  active session of its own domain \<open>example.com\<close>; deleting it removes the session
  and leaves that domain's pointer on the id that is gone.
\<close>

theorem delete_leaves_pointer_of_other_domain:
  "getSession otherTabState ''a1'' = Some sessionA \<and>
   map_of (activeSessions otherTabState) (domain sessionA) = Some ''a1'' \<and>
   fst (deleteSession ''a1'' otherTabState) = Inr () \<and>
   getSession (snd (deleteSession ''a1'' otherTabState)) ''a1'' = None \<and>
   map_of (activeSessions (snd (deleteSession ''a1'' otherTabState))) (domain sessionA) = Some ''a1''"
  by code_simp

section \<open>The active pointers after each operation\<close>

text \<open>
  Saving, overwriting, reordering, renaming and creating a blank session keep the
  invariant (renaming in a store whose session ids and pointer keys are distinct).
  Switching and deleting keep it when the session concerned belongs to the current
  domain.
\<close>

lemma activePointersValid_iff:
  "activePointersValid st \<longleftrightarrow>
   (\<forall>p \<in> set (activeSessions st). (snd p, fst p) \<in> (\<lambda>s. (id_s s, domain s)) ` set (sessions st))"
  unfolding activePointersValid_def list_all_iff list_ex_iff image_iff split_beta
  by (intro ball_cong refl bex_cong) auto

lemma set_update_subset: "set (AList.update k v al) \<subseteq> insert (k, v) (set al)"
  by (induction al) auto

lemma fold_assignOrder_map:
  "map (\<lambda>s. (id_s s, domain s)) (fold (assignOrder d) es ss) = map (\<lambda>s. (id_s s, domain s)) ss"
  by (induction es arbitrary: ss) (simp_all add: assignOrder_map)

lemma same_keys_image:
  assumes "map (\<lambda>s. (id_s s, domain s)) ss' = map (\<lambda>s. (id_s s, domain s)) ss"
  shows "(\<lambda>s. (id_s s, domain s)) ` set ss' = (\<lambda>s. (id_s s, domain s)) ` set ss"
proof -
  have "set (map (\<lambda>s. (id_s s, domain s)) ss') = set (map (\<lambda>s. (id_s s, domain s)) ss)"
    using assms by (rule arg_cong)
  then show ?thesis
    by simp
qed

lemma createNewSession_keeps_active_pointers:
  "activePointersValid st \<Longrightarrow> activePointersValid (snd (createNewSession resp st))"
  by (auto simp: activePointersValid_iff createNewSession_def AList.delete_eq)

lemma saveCurrentSession_keeps_active_pointers:
  assumes "activePointersValid st"
  shows "activePointersValid (snd (saveCurrentSession V dflt nm resp generatedId now1 now2 st))"
proof (cases "V nm")
  case (Inl e)
  with assms show ?thesis by (simp add: saveCurrentSession_def)
next
  case (Inr validatedName)
  show ?thesis
  proof (cases "success resp")
    case False
    with Inr assms show ?thesis by (simp add: saveCurrentSession_def)
  next
    case True
    show ?thesis
      unfolding saveCurrentSession_success [where V = V and nm = nm, OF Inr True]
      using assms set_update_subset [of "currentDomain st" generatedId "activeSessions st"]
      by (fastforce simp: activePointersValid_iff)
  qed
qed

lemma reorderSessions_keeps_active_pointers:
  assumes "activePointersValid st"
  shows "activePointersValid (snd (reorderSessions sessionIds st))"
proof -
  have "(\<lambda>s. (id_s s, domain s)) ` set (fold (assignOrder (currentDomain st)) (enumerate 0 sessionIds) (sessions st)) =
        (\<lambda>s. (id_s s, domain s)) ` set (sessions st)"
    by (rule same_keys_image) (rule fold_assignOrder_map)
  with assms show ?thesis
    by (simp add: activePointersValid_iff reorderSessions_def Let_def)
qed

lemma pointer_to_found_session:
  assumes valid: "\<forall>p \<in> set al. (snd p, fst p) \<in> (\<lambda>s. (id_s s, domain s)) ` set ss"
    and keys: "(\<lambda>s. (id_s s, domain s)) ` set ss' = (\<lambda>s. (id_s s, domain s)) ` set ss"
    and found: "x \<in> set ss" "id_s x = i" "domain x = d"
  shows "\<forall>p \<in> set (AList.update d i al). (snd p, fst p) \<in> (\<lambda>s. (id_s s, domain s)) ` set ss'"
proof
  fix p assume "p \<in> set (AList.update d i al)"
  then have "p = (d, i) \<or> p \<in> set al"
    using set_update_subset [of d i al] by auto
  then show "(snd p, fst p) \<in> (\<lambda>s. (id_s s, domain s)) ` set ss'"
    using valid found unfolding keys by force
qed

lemma overwriteSessionWithCurrent_keeps_active_pointers:
  assumes "activePointersValid st"
  shows "activePointersValid (snd (overwriteSessionWithCurrent V dflt sessionId nm resp now st))"
proof (cases "find (\<lambda>x. id_s x = sessionId) (sessions st)")
  case None
  with assms show ?thesis by (simp add: overwriteSessionWithCurrent_def)
next
  case (Some s)
  note s = find_Some_holds [OF Some]
  show ?thesis
  proof (cases "domain s = currentDomain st \<and> success resp \<and>
      \<not> isl (case nm of None \<Rightarrow> Inr (name s) | Some n \<Rightarrow> V n)")
    case False
    with Some assms show ?thesis
      by (auto simp: overwriteSessionWithCurrent_def split: sum.splits)
  next
    case True
    then obtain validatedName where v: "(case nm of None \<Rightarrow> Inr (name s) | Some n \<Rightarrow> V n) = Inr validatedName"
      by (cases "case nm of None \<Rightarrow> Inr (name s) | Some n \<Rightarrow> V n") auto
    let ?f = "\<lambda>x. x\<lparr> payload := objectAssign (payload x)
                       (capturedProperties (case data resp of None \<Rightarrow> dflt | Some d \<Rightarrow> d)),
                     id_s := id_s s, order := order s, createdAt := createdAt s, domain := domain s,
                     name := validatedName, lastUsed := now \<rparr>"
    have "map (\<lambda>s. (id_s s, domain s)) (updateFound (\<lambda>x. id_s x = sessionId) ?f (sessions st)) =
          map (\<lambda>s. (id_s s, domain s)) (sessions st)"
      using Some by (intro map_updateFound_frame) simp_all
    then have keys: "(\<lambda>s. (id_s s, domain s)) ` set (updateFound (\<lambda>x. id_s x = sessionId) ?f (sessions st)) =
          (\<lambda>s. (id_s s, domain s)) ` set (sessions st)"
      by (rule same_keys_image)
    have valid': "\<forall>p \<in> set (activeSessions st). (snd p, fst p) \<in> (\<lambda>s. (id_s s, domain s)) ` set (sessions st)"
      using assms by (simp add: activePointersValid_iff)
    have sin: "s \<in> set (sessions st)" and d: "domain s = currentDomain st"
      using s True by simp_all
    have "\<forall>p \<in> set (AList.update (currentDomain st) (id_s s) (activeSessions st)).
            (snd p, fst p) \<in> (\<lambda>s. (id_s s, domain s)) ` set (updateFound (\<lambda>x. id_s x = sessionId) ?f (sessions st))"
      by (rule pointer_to_found_session [OF valid' keys sin refl d])
    moreover have "success resp"
      using True by simp
    note overwriteSessionWithCurrent_success [where V = V and nm = nm, OF Some d this v, of dflt now]
    ultimately show ?thesis
      by (simp add: activePointersValid_iff)
  qed
qed

lemma switchToSession_keeps_active_pointers:
  assumes "activePointersValid st"
    and same_domain: "\<And>s. getSession st sessionId = Some s \<Longrightarrow> domain s = currentDomain st"
  shows "activePointersValid (snd (switchToSession sessionId resp now st))"
proof (cases "find (\<lambda>x. id_s x = sessionId) (sessions st)")
  case None
  with assms show ?thesis by (simp add: switchToSession_def)
next
  case (Some s)
  note s = find_Some_holds [OF Some]
  have d: "domain s = currentDomain st"
    using same_domain Some by (simp add: getSession_def)
  show ?thesis
  proof (cases "success resp")
    case False
    with Some assms show ?thesis by (simp add: switchToSession_def)
  next
    case True
    have "map (\<lambda>s. (id_s s, domain s)) (updateFound (\<lambda>x. id_s x = sessionId) (\<lambda>x. x\<lparr> lastUsed := now \<rparr>) (sessions st)) =
          map (\<lambda>s. (id_s s, domain s)) (sessions st)"
      by (intro map_updateFound_same) simp
    then have keys: "(\<lambda>s. (id_s s, domain s)) ` set (updateFound (\<lambda>x. id_s x = sessionId) (\<lambda>x. x\<lparr> lastUsed := now \<rparr>) (sessions st)) =
          (\<lambda>s. (id_s s, domain s)) ` set (sessions st)"
      by (rule same_keys_image)
    have valid': "\<forall>p \<in> set (activeSessions st). (snd p, fst p) \<in> (\<lambda>s. (id_s s, domain s)) ` set (sessions st)"
      using assms(1) by (simp add: activePointersValid_iff)
    have sin: "s \<in> set (sessions st)" and sid: "id_s s = sessionId"
      using s by simp_all
    have "\<forall>p \<in> set (AList.update (currentDomain st) sessionId (activeSessions st)).
            (snd p, fst p) \<in> (\<lambda>s. (id_s s, domain s)) `
              set (updateFound (\<lambda>x. id_s x = sessionId) (\<lambda>x. x\<lparr> lastUsed := now \<rparr>) (sessions st))"
      by (rule pointer_to_found_session [OF valid' keys sin sid d])
    with Some True show ?thesis
      by (simp add: activePointersValid_iff switchToSession_def)
  qed
qed

lemma deleteSession_keeps_active_pointers:
  assumes valid: "activePointersValid st"
    and keys: "distinct (map fst (activeSessions st))"
    and same_domain: "\<forall>s \<in> set (sessions st). id_s s = sessionId \<longrightarrow> domain s = currentDomain st"
  shows "activePointersValid (snd (deleteSession sessionId st))"
proof -
  let ?ss = "filter (\<lambda>s. id_s s \<noteq> sessionId) (sessions st)"
  have v: "\<forall>p \<in> set (activeSessions st). (snd p, fst p) \<in> (\<lambda>s. (id_s s, domain s)) ` set (sessions st)"
    using valid by (simp add: activePointersValid_iff)
  have kept: "(snd p, fst p) \<in> (\<lambda>s. (id_s s, domain s)) ` set ?ss"
    if p: "p \<in> set (activeSessions st)" and other: "p \<noteq> (currentDomain st, sessionId)" for p
  proof -
    from v p have "(snd p, fst p) \<in> (\<lambda>s. (id_s s, domain s)) ` set (sessions st)"
      by (rule bspec)
    then obtain s where s: "s \<in> set (sessions st)" "id_s s = snd p" "domain s = fst p"
      by (auto simp: image_iff)
    have "id_s s \<noteq> sessionId"
    proof
      assume i: "id_s s = sessionId"
      with s(1) same_domain have "domain s = currentDomain st"
        by blast
      with i s(2,3) have "p = (currentDomain st, sessionId)"
        by (simp add: prod_eq_iff)
      with other show False by simp
    qed
    with s(1) have "s \<in> set ?ss"
      by simp
    then have "(id_s s, domain s) \<in> (\<lambda>s. (id_s s, domain s)) ` set ?ss"
      by (rule imageI)
    with s(2,3) show ?thesis
      by simp
  qed
  show ?thesis
  proof (cases "map_of (activeSessions st) (currentDomain st) = Some sessionId")
    case True
    then have run: "snd (deleteSession sessionId st) =
        st\<lparr> sessions := ?ss, activeSessions := AList.delete (currentDomain st) (activeSessions st) \<rparr>"
      by (simp add: deleteSession_def Let_def)
    have "\<forall>p \<in> set (AList.delete (currentDomain st) (activeSessions st)).
        (snd p, fst p) \<in> (\<lambda>s. (id_s s, domain s)) ` set ?ss"
    proof
      fix p assume "p \<in> set (AList.delete (currentDomain st) (activeSessions st))"
      then have "p \<in> set (activeSessions st)" and "fst p \<noteq> currentDomain st"
        by (auto simp: AList.delete_eq)
      then show "(snd p, fst p) \<in> (\<lambda>s. (id_s s, domain s)) ` set ?ss"
        by (intro kept) auto
    qed
    then show ?thesis
      unfolding run by (simp add: activePointersValid_iff)
  next
    case False
    then have run: "snd (deleteSession sessionId st) = st\<lparr> sessions := ?ss \<rparr>"
      by (simp add: deleteSession_def Let_def)
    from False keys have absent: "(currentDomain st, sessionId) \<notin> set (activeSessions st)"
      by simp
    have "\<forall>p \<in> set (activeSessions st). (snd p, fst p) \<in> (\<lambda>s. (id_s s, domain s)) ` set ?ss"
    proof
      fix p assume p: "p \<in> set (activeSessions st)"
      with absent have "p \<noteq> (currentDomain st, sessionId)"
        by blast
      with p show "(snd p, fst p) \<in> (\<lambda>s. (id_s s, domain s)) ` set ?ss"
        by (rule kept)
    qed
    then show ?thesis
      unfolding run by (simp add: activePointersValid_iff)
  qed
qed

lemma set_update_cases:
  "distinct (map fst al) \<Longrightarrow> p \<in> set (AList.update k v al) \<Longrightarrow>
   p = (k, v) \<or> (p \<in> set al \<and> fst p \<noteq> k)"
proof (induction al)
  case Nil
  then show ?case by simp
next
  case (Cons q al)
  show ?case
  proof (cases "fst q = k")
    case True
    with Cons.prems have "p = (k, v) \<or> p \<in> set al"
      by simp
    moreover have "k \<notin> fst ` set al"
      using Cons.prems(1) True by auto
    ultimately show ?thesis
      by (auto simp: image_iff)
  next
    case False
    with Cons.prems have "p = q \<or> p \<in> set (AList.update k v al)"
      by simp
    with Cons False show ?thesis
      by auto
  qed
qed

lemma same_id_same_session:
  "distinct (map id_s ss) \<Longrightarrow> x \<in> set ss \<Longrightarrow> y \<in> set ss \<Longrightarrow> id_s x = id_s y \<Longrightarrow> x = y"
  by (auto simp: distinct_map dest: inj_onD)

lemma renameSession_keeps_active_pointers:
  assumes valid: "activePointersValid st"
    and ids: "distinct (map id_s (sessions st))"
    and keys: "distinct (map fst (activeSessions st))"
  shows "activePointersValid (snd (renameSession V trim toLowerCase sessionId newName overwrite st))"
proof (cases "find (\<lambda>x. id_s x = sessionId) (sessions st)")
  case None
  with valid show ?thesis by (simp add: renameSession_def)
next
  case (Some s)
  note s = find_Some_holds [OF Some]
  show ?thesis
  proof (cases "V newName")
    case (Inl e)
    with Some valid show ?thesis by (simp add: renameSession_def)
  next
    case (Inr validatedName)
    let ?p = "\<lambda>x. id_s x = sessionId"
    let ?f = "\<lambda>x. x\<lparr> name := validatedName \<rparr>"
    let ?K = "\<lambda>ss. (\<lambda>s. (id_s s, domain s)) ` set ss"
    have v: "\<forall>p \<in> set (activeSessions st). (snd p, fst p) \<in> ?K (sessions st)"
      using valid by (simp add: activePointersValid_iff)
    have renamed: "?K (updateFound ?p ?f ss) = ?K ss" for ss
      by (rule same_keys_image) (simp add: map_updateFound_same)
    show ?thesis
    proof (cases "findSessionByName trim toLowerCase st (domain s) validatedName (Some sessionId)")
      case None
      with Some Inr have "snd (renameSession V trim toLowerCase sessionId newName overwrite st) =
          st\<lparr> sessions := updateFound ?p ?f (sessions st) \<rparr>"
        by (simp add: renameSession_def Let_def)
      with v show ?thesis
        by (simp add: activePointersValid_iff renamed)
    next
      case conflict: (Some c)
      have c: "c \<in> set (sessions st)" "domain c = domain s" "id_s c \<noteq> sessionId"
        using find_Some_holds [OF conflict [unfolded findSessionByName_def Let_def]] by simp_all
      show ?thesis
      proof (cases overwrite)
        case False
        with Some Inr conflict valid show ?thesis
          by (simp add: renameSession_def Let_def)
      next
        case True
        let ?kept = "filter (\<lambda>x. id_s x \<noteq> id_s c) (sessions st)"
        let ?act = "if map_of (activeSessions st) (domain s) = Some (id_s c)
                    then AList.update (domain s) sessionId (activeSessions st) else activeSessions st"
        have run: "snd (renameSession V trim toLowerCase sessionId newName overwrite st) =
            st\<lparr> sessions := updateFound ?p ?f ?kept, activeSessions := ?act \<rparr>"
          using Some Inr conflict True by (simp add: renameSession_def Let_def)
        have survives: "(snd p, fst p) \<in> ?K ?kept"
          if p: "p \<in> set (activeSessions st)" and other: "p \<noteq> (domain s, id_s c)" for p
        proof -
          from v p have "(snd p, fst p) \<in> ?K (sessions st)"
            by (rule bspec)
          then obtain x where x: "x \<in> set (sessions st)" "id_s x = snd p" "domain x = fst p"
            by (auto simp: image_iff)
          have "id_s x \<noteq> id_s c"
          proof
            assume "id_s x = id_s c"
            with ids x(1) c(1) have "x = c"
              by (rule same_id_same_session)
            with x(2,3) c(2) have "p = (domain s, id_s c)"
              by (simp add: prod_eq_iff)
            with other show False by simp
          qed
          with x(1) have "x \<in> set ?kept"
            by simp
          then have "(id_s x, domain x) \<in> ?K ?kept"
            by (rule imageI)
          with x(2,3) show ?thesis
            by simp
        qed
        have target: "(sessionId, domain s) \<in> ?K ?kept"
        proof -
          have "s \<in> set ?kept"
            using s c(3) by simp
          then have "(id_s s, domain s) \<in> ?K ?kept"
            by (rule imageI)
          with s show ?thesis
            by simp
        qed
        have "\<forall>p \<in> set ?act. (snd p, fst p) \<in> ?K ?kept"
        proof
          fix p assume p: "p \<in> set ?act"
          show "(snd p, fst p) \<in> ?K ?kept"
          proof (cases "map_of (activeSessions st) (domain s) = Some (id_s c)")
            case True
            with p have "p \<in> set (AList.update (domain s) sessionId (activeSessions st))"
              by simp
            with keys have "p = (domain s, sessionId) \<or> (p \<in> set (activeSessions st) \<and> fst p \<noteq> domain s)"
              by (rule set_update_cases)
            then show ?thesis
            proof
              assume "p = (domain s, sessionId)"
              with target show ?thesis by simp
            next
              assume "p \<in> set (activeSessions st) \<and> fst p \<noteq> domain s"
              then have "p \<in> set (activeSessions st)" and "p \<noteq> (domain s, id_s c)"
                by auto
              then show ?thesis by (rule survives)
            qed
          next
            case False
            with p have p': "p \<in> set (activeSessions st)"
              by simp
            from False keys have "(domain s, id_s c) \<notin> set (activeSessions st)"
              by simp
            with p' have "p \<noteq> (domain s, id_s c)"
              by blast
            with p' show ?thesis by (rule survives)
          qed
        qed
        then show ?thesis
          unfolding run by (simp add: activePointersValid_iff renamed)
      qed
    qed
  qed
qed

text \<open>
  C2. The invariant holds in the example store seen from a tab of \<open>other.org\<close>.
  Switching to the session \<open>a1\<close> of \<open>example.com\<close> succeeds and records it as the
  active session of \<open>other.org\<close>; deleting it succeeds and leaves the pointer of
  \<open>example.com\<close> without a session. Either way the invariant is lost.
\<close>

theorem switch_and_delete_break_active_pointers:
  "activePointersValid otherTabState \<and>
   fst (switchToSession ''a1'' applyOk 1000 otherTabState) = Inr () \<and>
   \<not> activePointersValid (snd (switchToSession ''a1'' applyOk 1000 otherTabState)) \<and>
   fst (deleteSession ''a1'' otherTabState) = Inr () \<and>
   \<not> activePointersValid (snd (deleteSession ''a1'' otherTabState))"
  by code_simp

section \<open>Import merge\<close>

text \<open>
  C9, as the claim states it, fails for the empty domain: \<^verbatim>\<open>.filter(Boolean)\<close> keeps it
  out of the set of imported domains, so an existing session with the empty domain
  stays although an imported session has the same domain.
\<close>

theorem mergeSessions_keeps_blank_domain:
  "domain blankDomainA \<in> set (map domain [blankDomainB]) \<and>
   mergeSessions (Some [blankDomainA]) [blankDomainB] = Some [blankDomainA, blankDomainB]"
  by code_simp

text \<open>
  C9, amended. For a non-empty import, the stored array becomes the existing sessions
  whose domain is empty or is not the domain of an imported session, unchanged and in
  their order, followed by the imported sessions.
\<close>

theorem mergeSessions_replaces_imported_domains:
  assumes "importedSessions \<noteq> []"
  shows "mergeSessions stored importedSessions =
         Some (filter (\<lambda>s. domain s = [] \<or> domain s \<notin> set (map domain importedSessions))
                 (case stored of None \<Rightarrow> [] | Some xs \<Rightarrow> xs) @ importedSessions)"
proof -
  have "filter (\<lambda>s. domain s \<notin> set (filter (\<lambda>d. d \<noteq> []) (map domain importedSessions))) xs =
        filter (\<lambda>s. domain s = [] \<or> domain s \<notin> set (map domain importedSessions)) xs" for xs
    by (rule filter_cong) auto
  with assms show ?thesis
    by (simp add: mergeSessions_def Let_def)
qed

theorem mergeSessions_replaces_imported_domains_witness:
  "[sessionC\<lparr> name := ''fresh'' \<rparr>] \<noteq> [] \<and>
   mergeSessions (Some [sessionA, sessionB, sessionC]) [sessionC\<lparr> name := ''fresh'' \<rparr>] =
     Some [sessionA, sessionB, sessionC\<lparr> name := ''fresh'' \<rparr>]"
proof -
  have h: "[sessionC\<lparr> name := ''fresh'' \<rparr>] \<noteq> []"
    by simp
  have e: "filter (\<lambda>s. domain s = [] \<or> domain s \<notin> set (map domain [sessionC\<lparr> name := ''fresh'' \<rparr>]))
             (case Some [sessionA, sessionB, sessionC] of None \<Rightarrow> [] | Some xs \<Rightarrow> xs) @
           [sessionC\<lparr> name := ''fresh'' \<rparr>] = [sessionA, sessionB, sessionC\<lparr> name := ''fresh'' \<rparr>]"
    by code_simp
  show ?thesis
    using mergeSessions_replaces_imported_domains [OF h, of "Some [sessionA, sessionB, sessionC]"] h
    unfolding e by simp
qed

end
